(* ===== verification/Prelude.thy ===== *)
theory Prelude
  imports Main "HOL-Library.Char_ord" "HOL-Library.List_Lexorder"
begin

text \<open>
  What every component shares: the shape of Go's error results, the collections of facts the
  component proofs are run with, and the generic lemmas on lists, sets and maps.

  A Go error is its message (the program inspects errors only through \<^verbatim>\<open>err.Error()\<close>): a function
  returning \<^verbatim>\<open>error\<close> returns a \<open>go_error option\<close>, \<open>None\<close> for \<^verbatim>\<open>nil\<close>; a function returning
  \<^verbatim>\<open>(T, error)\<close> returns a sum, \<open>Inl\<close> for the error. Strings are Go strings: lists of bytes.
\<close>

type_synonym go_error = string
type_synonym 'a result = "go_error + 'a"

section \<open>Collections of facts\<close>

named_theorems frame_simps \<open>what an operation leaves unchanged\<close>

section \<open>Lists and sets\<close>

text \<open>
  A Go \<^verbatim>\<open>range\<close> over a map visits each key once, in an order the language leaves open. An
  iteration order is a function from the key set to the list of visited keys.
\<close>

type_synonym 'k range_order = "'k set \<Rightarrow> 'k list"

definition range_order_ok :: "'k range_order \<Rightarrow> bool" where
  "range_order_ok ord \<longleftrightarrow> (\<forall>A. finite A \<longrightarrow> set (ord A) = A \<and> distinct (ord A))"

lemma range_order_set [simp]: "range_order_ok ord \<Longrightarrow> finite A \<Longrightarrow> set (ord A) = A"
  by (simp add: range_order_ok_def)

lemma range_order_distinct [simp]: "range_order_ok ord \<Longrightarrow> finite A \<Longrightarrow> distinct (ord A)"
  by (simp add: range_order_ok_def)

lemma range_order_sorted_list_of_set: "range_order_ok sorted_list_of_set"
  by (simp add: range_order_ok_def)

lemma sort_range_order:
  "range_order_ok ord \<Longrightarrow> finite A \<Longrightarrow> sort (ord A) = sorted_list_of_set A"
  using sorted_list_of_set_unique [of A "sort (ord A)"]
  by (metis distinct_sort range_order_distinct range_order_set set_sort
      sorted_list_of_set.idem_if_sorted_distinct sorted_sort)

lemma fold_insert_image: "fold (\<lambda>x A. insert (f x) A) xs A = A \<union> f ` set xs"
  by (induction xs arbitrary: A) auto

lemma fold_inv:
  assumes "P s" and "\<And>x s. x \<in> set xs \<Longrightarrow> P s \<Longrightarrow> P (f x s)"
  shows "P (fold f xs s)"
  using assms by (induction xs arbitrary: s) auto

section \<open>Loops that keep the last error\<close>

text \<open>
  The loop the program writes again and again: run an operation on each element, remember the
  last error that is not \<^verbatim>\<open>nil\<close>, go on. \<open>loop_last_err op xs err s\<close> is that loop entered with
  \<^verbatim>\<open>lastErr = err\<close>.
\<close>

fun loop_last_err ::
  "('a \<Rightarrow> 's \<Rightarrow> go_error option \<times> 's) \<Rightarrow> 'a list \<Rightarrow> go_error option \<Rightarrow> 's \<Rightarrow> go_error option \<times> 's" where
  "loop_last_err op [] err s = (err, s)"
| "loop_last_err op (x # xs) err s =
     (case op x s of
        (None, s') \<Rightarrow> loop_last_err op xs err s'
      | (Some e, s') \<Rightarrow> loop_last_err op xs (Some e) s')"

lemma loop_last_err_append:
  "loop_last_err op (xs @ ys) err s =
     (case loop_last_err op xs err s of (err', s') \<Rightarrow> loop_last_err op ys err' s')"
  by (induction xs arbitrary: err s) (auto split: prod.splits option.splits)

lemma loop_last_err_inv:
  assumes "P s" and "\<And>x s. x \<in> set xs \<Longrightarrow> P s \<Longrightarrow> P (snd (op x s))"
  shows "P (snd (loop_last_err op xs err s))"
  using assms
proof (induction xs arbitrary: err s)
  case (Cons x xs)
  have "P (snd (op x s))" using Cons.prems by auto
  then show ?case
    using Cons.IH [of "snd (op x s)"] Cons.prems(2)
    by (cases "op x s") (auto split: option.splits)
qed simp

lemma loop_last_err_start_Some:
  "fst (loop_last_err op xs (Some e) s) \<noteq> None"
  by (induction xs arbitrary: e s) (auto split: prod.splits option.splits)

lemma loop_last_err_None:
  "loop_last_err op (x # xs) err s = (None, s') \<longleftrightarrow>
     (\<exists>s1. op x s = (None, s1) \<and> loop_last_err op xs err s1 = (None, s'))"
  using loop_last_err_start_Some [of op xs]
  by (auto split: prod.splits option.splits) (metis fst_conv option.distinct(1))+

text \<open>
  A run of the loop in which every round succeeds: a relation between the states before and
  after the rounds done so far carries the whole loop, and no error is returned.
\<close>

lemma loop_last_err_success:
  assumes "P [] s"
    and "\<And>ys x zs s. xs = ys @ x # zs \<Longrightarrow> P ys s \<Longrightarrow> fst (op x s) = None \<and> P (ys @ [x]) (snd (op x s))"
  shows "\<exists>s'. loop_last_err op xs None s = (None, s') \<and> P xs s'"
proof -
  have "P ys s \<Longrightarrow> xs = ys @ zs \<Longrightarrow> \<exists>s'. loop_last_err op zs None s = (None, s') \<and> P xs s'"
    for ys zs s
  proof (induction zs arbitrary: ys s)
    case (Cons z zs)
    have "fst (op z s) = None \<and> P (ys @ [z]) (snd (op z s))"
      using assms(2) Cons.prems by blast
    moreover have "xs = (ys @ [z]) @ zs" using Cons.prems by simp
    ultimately show ?case
      using Cons.IH [of "ys @ [z]" "snd (op z s)"] by (cases "op z s") auto
  qed simp
  from this [of "[]" s xs] show ?thesis using assms(1) by simp
qed

text \<open>
  A loop that returns \<^verbatim>\<open>nil\<close> has achieved, for every element, what a successful round achieves for
  its element, provided later rounds do not undo it.
\<close>

lemma loop_last_err_goal:
  assumes run: "loop_last_err op xs None s = (None, s')" and "I s"
    and inv: "\<And>x s. x \<in> set xs \<Longrightarrow> I s \<Longrightarrow> I (snd (op x s))"
    and goal: "\<And>x s s'. x \<in> set xs \<Longrightarrow> I s \<Longrightarrow> op x s = (None, s') \<Longrightarrow> Q x s'"
    and stable: "\<And>x y s. x \<in> set xs \<Longrightarrow> y \<in> set xs \<Longrightarrow> I s \<Longrightarrow> Q x s \<Longrightarrow> Q x (snd (op y s))"
  shows "\<forall>x \<in> set xs. Q x s'"
proof -
  have "(\<forall>x \<in> set ys. Q x s) \<Longrightarrow> I s \<Longrightarrow> set ys \<union> set zs = set xs \<Longrightarrow>
    loop_last_err op zs None s = (None, s') \<Longrightarrow> \<forall>x \<in> set xs. Q x s'" for ys zs s
  proof (induction zs arbitrary: ys s)
    case (Cons z zs)
    obtain s1 where s1: "op z s = (None, s1)" and rest: "loop_last_err op zs None s1 = (None, s')"
      using Cons.prems(4) loop_last_err_None by metis
    have z: "z \<in> set xs" using Cons.prems(3) by auto
    have "I s1" using inv [OF z Cons.prems(2)] s1 by simp
    moreover have "\<forall>x \<in> set (z # ys). Q x s1"
      using goal [OF z Cons.prems(2) s1] stable [OF _ z Cons.prems(2)] s1 Cons.prems(1,3) by auto
    moreover have "set (z # ys) \<union> set zs = set xs" using Cons.prems(3) by auto
    ultimately show ?case using Cons.IH rest by blast
  qed simp
  from this [of "[]" s xs] show ?thesis using run \<open>I s\<close> by simp
qed

text \<open>Operations that agree where an invariant of the first holds are looped alike.\<close>

lemma loop_last_err_cong:
  assumes "I s" and "\<And>x s. x \<in> set xs \<Longrightarrow> I s \<Longrightarrow> op' x s = op x s"
    and "\<And>x s. x \<in> set xs \<Longrightarrow> I s \<Longrightarrow> I (snd (op x s))"
  shows "loop_last_err op' xs err s = loop_last_err op xs err s"
  using assms
proof (induction xs arbitrary: err s)
  case (Cons x xs)
  obtain r s1 where x: "op x s = (r, s1)" by fastforce
  have "op' x s = (r, s1)" using Cons.prems(1,2) x by simp
  moreover have "I s1" using Cons.prems(1,3) x by (metis list.set_intros(1) snd_conv)
  ultimately show ?case
    using Cons.IH [of s1] Cons.prems(2,3) x by (simp split: option.splits)
qed simp

text \<open>Full congruence for the case expressions of error results.\<close>

lemmas case_congs = option.case_cong prod.case_cong sum.case_cong if_cong

end
