(* ===== verification/GoLib.thy ===== *)
theory GoLib
  imports Prelude Complex_Main "HOL-Library.Sublist"
begin

text \<open>
  The parts of the Go language and standard library the program computes with: string
  operations of package \<^verbatim>\<open>strings\<close>, the integer scanning of \<^verbatim>\<open>fmt.Sscanf\<close> with verb \<^verbatim>\<open>%d\<close>
  and of \<^verbatim>\<open>strconv.Atoi\<close>, 64-bit ranges, and \<^verbatim>\<open>float64\<close> arithmetic with its rounding.
  Strings are UTF-8 byte sequences. \<^verbatim>\<open>strings.ToLower\<close> is modelled on ASCII text (bytes
  outside \<^verbatim>\<open>A\<close>-\<^verbatim>\<open>Z\<close> are kept).
\<close>

section \<open>Strings\<close>

text \<open>\<^verbatim>\<open>strings.Contains\<close>\<close>

definition contains :: "string \<Rightarrow> string \<Rightarrow> bool" where
  "contains s sub = sublist sub s"

lemma contains_iff: "contains s sub \<longleftrightarrow> (\<exists>a b. s = a @ sub @ b)"
  by (simp add: contains_def sublist_def)

lemma contains_char [simp]: "contains s [c] \<longleftrightarrow> c \<in> set s"
  by (auto simp: contains_iff dest: split_list)

lemma contains_prefix [simp]: "contains (sub @ s) sub"
  by (auto simp: contains_iff intro: exI [of _ "[]"])

text \<open>\<^verbatim>\<open>strings.ToLower\<close>\<close>

definition to_lower_char :: "char \<Rightarrow> char" where
  "to_lower_char c = (let n = of_char c :: nat in if 65 \<le> n \<and> n \<le> 90 then char_of (n + 32) else c)"

definition to_lower :: "string \<Rightarrow> string" where
  "to_lower = map to_lower_char"

lemma to_lower_char_idem: "to_lower_char (to_lower_char c) = to_lower_char c"
  by (simp add: to_lower_char_def Let_def)

lemma to_lower_idem: "to_lower (to_lower s) = to_lower s"
  by (simp add: to_lower_def to_lower_char_idem)

text \<open>\<^verbatim>\<open>strings.Join\<close>, and \<^verbatim>\<open>fmt\<close>'s \<^verbatim>\<open>%v\<close> of a string slice\<close>

fun join :: "string \<Rightarrow> string list \<Rightarrow> string" where
  "join sep [] = []"
| "join sep [x] = x"
| "join sep (x # y # ys) = x @ sep @ join sep (y # ys)"

definition show_strings :: "string list \<Rightarrow> string" where
  "show_strings xs = ''['' @ join '' '' xs @ '']''"

section \<open>Integers\<close>

definition int64_range :: "int \<Rightarrow> bool" where
  "int64_range n \<longleftrightarrow> - (2 ^ 63) \<le> n \<and> n < 2 ^ 63"

definition is_digit :: "char \<Rightarrow> bool" where
  "is_digit c = (let n = of_char c :: nat in 48 \<le> n \<and> n \<le> 57)"

definition digit_value :: "char \<Rightarrow> int" where
  "digit_value c = int (of_char c) - 48"

definition digits_value :: "string \<Rightarrow> int" where
  "digits_value ds = foldl (\<lambda>v c. 10 * v + digit_value c) 0 ds"

text \<open>An optional sign, then what follows it.\<close>

fun split_sign :: "string \<Rightarrow> int \<times> string" where
  "split_sign [] = (1, [])"
| "split_sign (c # cs) =
     (if c = CHR ''-'' then (-1, cs) else if c = CHR ''+'' then (1, cs) else (1, c # cs))"

text \<open>
  \<^verbatim>\<open>strconv.Atoi\<close> on a 64-bit platform: an optional sign and at least one decimal digit, nothing
  else, the value in the 64-bit range. Its error text quotes the input (\<^verbatim>\<open>strconv.Quote\<close>; escapes
  are produced for the quote and the backslash).
\<close>

definition quote_char :: "char \<Rightarrow> string" where
  "quote_char c =
     (if c = CHR 0x22 \<or> c = CHR 0x5C then [CHR 0x5C, c] else [c])"

definition quote :: "string \<Rightarrow> string" where
  "quote s = [CHR 0x22] @ concat (map quote_char s) @ [CHR 0x22]"

definition atoi :: "string \<Rightarrow> int result" where
  "atoi s =
     (case split_sign s of (sg, ds) \<Rightarrow>
        if ds = [] \<or> \<not> list_all is_digit ds
        then Inl (''strconv.Atoi: parsing '' @ quote s @ '': invalid syntax'')
        else if int64_range (sg * digits_value ds) then Inr (sg * digits_value ds)
        else Inl (''strconv.Atoi: parsing '' @ quote s @ '': value out of range''))"

text \<open>
  \<^verbatim>\<open>fmt.Sscanf(val, "%d", &limit)\<close>: leading space is skipped (a newline is an error), then an
  optional sign and the longest run of digits are read and parsed with \<^verbatim>\<open>strconv.ParseInt\<close>; text
  after the number is not an error. \<open>space_width\<close> is the number of bytes of the space character
  a string starts with (the table \<^verbatim>\<open>space\<close> of package \<^verbatim>\<open>fmt\<close>, in UTF-8), 0 if there is none.
\<close>

definition three_byte_space :: "nat \<Rightarrow> nat \<Rightarrow> nat \<Rightarrow> bool" where
  "three_byte_space b0 b1 b2 \<longleftrightarrow>
     (b0 = 0xE1 \<and> b1 = 0x9A \<and> b2 = 0x80)
   \<or> (b0 = 0xE2 \<and> b1 = 0x80 \<and> ((0x80 \<le> b2 \<and> b2 \<le> 0x8A) \<or> b2 = 0xA8 \<or> b2 = 0xA9 \<or> b2 = 0xAF))
   \<or> (b0 = 0xE2 \<and> b1 = 0x81 \<and> b2 = 0x9F)
   \<or> (b0 = 0xE3 \<and> b1 = 0x80 \<and> b2 = 0x80)"

fun space_width_bytes :: "nat list \<Rightarrow> nat" where
  "space_width_bytes [] = 0"
| "space_width_bytes (b0 # bs) =
     (if (9 \<le> b0 \<and> b0 \<le> 13) \<or> b0 = 32 then 1
      else if b0 = 0xC2 \<and> bs \<noteq> [] \<and> (hd bs = 0x85 \<or> hd bs = 0xA0) then 2
      else if 2 \<le> length bs \<and> three_byte_space b0 (bs ! 0) (bs ! 1) then 3
      else 0)"

definition space_width :: "string \<Rightarrow> nat" where
  "space_width s = space_width_bytes (map of_char s)"

lemma space_width_Nil [simp]: "space_width [] = 0"
  by (simp add: space_width_def)

function skip_space :: "string \<Rightarrow> string option" where
  "skip_space s =
     (if s \<noteq> [] \<and> hd s = CHR 0x0A then None
      else if space_width s = 0 then Some s
      else skip_space (drop (space_width s) s))"
  by pat_completeness auto
termination
proof (relation "measure length")
  fix s :: string
  assume "\<not> (s \<noteq> [] \<and> hd s = CHR 0x0A)" and "space_width s \<noteq> 0"
  then show "(drop (space_width s) s, s) \<in> measure length"
    by (cases s) auto
qed simp

declare skip_space.simps [simp del]

definition sscanf_d :: "string \<Rightarrow> int option" where
  "sscanf_d s =
     (case skip_space s of
        None \<Rightarrow> None
      | Some t \<Rightarrow>
          (case split_sign t of (sg, u) \<Rightarrow>
             let ds = takeWhile is_digit u; n = sg * digits_value ds in
             if ds = [] then None else if int64_range n then Some n else None))"

text \<open>The decimal text of an integer, as \<^verbatim>\<open>%d\<close> prints it.\<close>

fun decimal_nat :: "nat \<Rightarrow> string" where
  "decimal_nat n =
     (if n < 10 then [char_of (n + 48)] else decimal_nat (n div 10) @ [char_of (n mod 10 + 48)])"

declare decimal_nat.simps [simp del]

definition decimal :: "int \<Rightarrow> string" where
  "decimal n = (if n < 0 then CHR ''-'' # decimal_nat (nat (- n)) else decimal_nat (nat n))"

lemma digit_char: "n < 10 \<Longrightarrow> is_digit (char_of (n + 48 :: nat)) \<and> digit_value (char_of (n + 48 :: nat)) = int n"
  by (simp add: is_digit_def digit_value_def Let_def)

lemma decimal_nat_digits: "list_all is_digit (decimal_nat n) \<and> decimal_nat n \<noteq> []"
proof (induction n rule: decimal_nat.induct)
  case (1 n)
  then show ?case using digit_char by (subst (1 2) decimal_nat.simps) auto
qed

lemma digits_value_snoc: "digits_value (ds @ [c]) = 10 * digits_value ds + digit_value c"
  by (simp add: digits_value_def)

lemma digits_value_decimal_nat: "digits_value (decimal_nat n) = int n"
proof (induction n rule: decimal_nat.induct)
  case (1 n)
  show ?case
  proof (cases "n < 10")
    case True
    then show ?thesis
      using digit_char [of n] by (subst decimal_nat.simps) (simp add: digits_value_def)
  next
    case False
    moreover have "10 * int (n div 10) + int (n mod 10) = int n" by presburger
    ultimately show ?thesis
      using "1.IH" digit_char [of "n mod 10"]
      by (subst decimal_nat.simps) (simp add: digits_value_snoc)
  qed
qed

lemma digit_not_sign: "is_digit c \<Longrightarrow> c \<noteq> CHR ''-'' \<and> c \<noteq> CHR ''+'' \<and> c \<noteq> CHR 0x0A"
  by (auto simp: is_digit_def)

lemma digit_no_space: "is_digit c \<Longrightarrow> space_width (c # cs) = 0"
  by (auto simp: space_width_def is_digit_def Let_def three_byte_space_def)

lemma sign_no_space: "space_width (CHR ''-'' # cs) = 0"
  by (simp add: space_width_def three_byte_space_def)

lemma split_sign_decimal:
  "split_sign (decimal n @ rest) = (if n < 0 then -1 else 1, decimal_nat (nat \<bar>n\<bar>) @ rest)"
proof (cases "decimal_nat (nat n)")
  case Nil
  then show ?thesis using decimal_nat_digits by metis
next
  case (Cons c cs)
  then have "is_digit c" using decimal_nat_digits [of "nat n"] by simp
  with Cons show ?thesis by (auto simp: decimal_def dest: digit_not_sign)
qed

lemma skip_space_decimal: "skip_space (decimal n @ rest) = Some (decimal n @ rest)"
proof -
  obtain c cs where c: "decimal_nat (nat n) = c # cs"
    using decimal_nat_digits [of "nat n"] by (cases "decimal_nat (nat n)") auto
  then have "is_digit c" using decimal_nat_digits [of "nat n"] by simp
  with c show ?thesis
    by (subst skip_space.simps)
      (auto simp: decimal_def digit_no_space sign_no_space dest: digit_not_sign)
qed

lemma sscanf_d_decimal:
  assumes "int64_range n" and "rest = [] \<or> \<not> is_digit (hd rest)"
  shows "sscanf_d (decimal n @ rest) = Some n"
proof -
  have "takeWhile is_digit (decimal_nat m @ rest) = decimal_nat m" for m
    using decimal_nat_digits [of m] assms(2)
    by (cases rest) (auto simp: takeWhile_append list_all_iff)
  moreover have "(if n < 0 then - 1 else 1) * int (nat \<bar>n\<bar>) = n" by simp
  ultimately show ?thesis
    using assms(1) decimal_nat_digits
    by (simp add: sscanf_d_def skip_space_decimal split_sign_decimal digits_value_decimal_nat Let_def)
qed

lemma atoi_decimal: "int64_range n \<Longrightarrow> atoi (decimal n) = Inr n"
  using decimal_nat_digits split_sign_decimal [of n "[]"]
  by (auto simp: atoi_def digits_value_decimal_nat)

section \<open>Floating point\<close>

text \<open>
  \<^verbatim>\<open>float64\<close> arithmetic is exact arithmetic followed by rounding. The rounding is a parameter of
  the definitions that compute with floats; what IEEE 754 promises of it is \<open>float64_rounding\<close>:
  it is monotone and leaves every number with a 53-bit significand unchanged. Infinities, NaN and
  exponents outside the range named there are not modelled.
\<close>

definition float64_rounding :: "(real \<Rightarrow> real) \<Rightarrow> bool" where
  "float64_rounding fl \<longleftrightarrow>
     mono fl \<and> (\<forall>(m::int) k. \<bar>m\<bar> \<le> 2 ^ 53 \<longrightarrow> k \<le> 900 \<longrightarrow>
        fl (real_of_int m * 2 ^ k) = real_of_int m * 2 ^ k \<and>
        fl (real_of_int m / 2 ^ k) = real_of_int m / 2 ^ k)"

lemma float64_mono: "float64_rounding fl \<Longrightarrow> x \<le> y \<Longrightarrow> fl x \<le> fl y"
  by (simp add: float64_rounding_def mono_def)

lemma float64_scaled:
  "float64_rounding fl \<Longrightarrow> \<bar>m\<bar> \<le> 2 ^ 53 \<Longrightarrow> k \<le> 900 \<Longrightarrow>
     fl (real_of_int m * 2 ^ k) = real_of_int m * 2 ^ k"
  by (simp add: float64_rounding_def)

lemma float64_quotient:
  "float64_rounding fl \<Longrightarrow> \<bar>m\<bar> \<le> 2 ^ 53 \<Longrightarrow> k \<le> 900 \<Longrightarrow>
     fl (real_of_int m / 2 ^ k) = real_of_int m / 2 ^ k"
  by (simp add: float64_rounding_def)

lemma float64_int: "float64_rounding fl \<Longrightarrow> \<bar>m\<bar> \<le> 2 ^ 53 \<Longrightarrow> fl (real_of_int m) = real_of_int m"
  using float64_scaled [of fl m 0] by simp

lemma float64_le: "float64_rounding fl \<Longrightarrow> x \<le> y \<Longrightarrow> fl y = y \<Longrightarrow> fl x \<le> y"
  by (metis float64_mono)

lemma float64_ge: "float64_rounding fl \<Longrightarrow> y \<le> x \<Longrightarrow> fl y = y \<Longrightarrow> y \<le> fl x"
  by (metis float64_mono)

lemma float64_rounding_id: "float64_rounding (\<lambda>x. x)"
  by (simp add: float64_rounding_def mono_def)

text \<open>
  The conversion \<^verbatim>\<open>time.Duration(x)\<close> of a \<^verbatim>\<open>float64\<close> discards the fraction; the value of a
  conversion that does not fit in 64 bits depends on the implementation (parameter \<open>ovf\<close>).
\<close>

definition trunc_real :: "real \<Rightarrow> int" where
  "trunc_real x = (if 0 \<le> x then \<lfloor>x\<rfloor> else \<lceil>x\<rceil>)"

definition float_to_int64 :: "(real \<Rightarrow> int) \<Rightarrow> real \<Rightarrow> int" where
  "float_to_int64 ovf x = (if int64_range (trunc_real x) then trunc_real x else ovf x)"

end
