(* ===== verification/Regex.thy ===== *)
theory Regex
  imports GoLib
begin

text \<open>
  The fragment of Go's \<^verbatim>\<open>regexp\<close> syntax the error classifier uses: literals under the flag \<^verbatim>\<open>(?i)\<close>,
  alternation, and \<^verbatim>\<open>.*\<close> and \<^verbatim>\<open>.*?\<close>, which have the same matches (greediness only selects one of
  them, and \<^verbatim>\<open>MatchString\<close> asks whether there is any). \<open>matches\<close> says which strings an expression
  matches; \<open>match_string\<close> is the executable search by derivatives, proved to find exactly the
  strings with a matching part. Expressions are over bytes: \<^verbatim>\<open>.\<close> matches any rune but the newline,
  and under \<^verbatim>\<open>(?i)\<close> the letters s and k also match U+017F and U+212A, here in UTF-8.
\<close>

datatype regex =
    Fail
  | Word string
  | NotNewline
  | Cat regex regex
  | Or regex regex
  | Many regex

inductive matches :: "regex \<Rightarrow> string \<Rightarrow> bool" where
  matches_Word: "matches (Word w) w"
| matches_NotNewline: "c \<noteq> CHR 0x0A \<Longrightarrow> matches NotNewline [c]"
| matches_Cat: "matches r u \<Longrightarrow> matches q v \<Longrightarrow> matches (Cat r q) (u @ v)"
| matches_Or1: "matches r u \<Longrightarrow> matches (Or r q) u"
| matches_Or2: "matches q u \<Longrightarrow> matches (Or r q) u"
| matches_Many0: "matches (Many r) []"
| matches_Many1: "matches r u \<Longrightarrow> matches (Many r) v \<Longrightarrow> matches (Many r) (u @ v)"

inductive_simps matches_Fail_simp [simp]: "matches Fail u"
inductive_simps matches_Word_simp [simp]: "matches (Word w) u"
inductive_simps matches_NotNewline_simp [simp]: "matches NotNewline u"
inductive_simps matches_Cat_simp: "matches (Cat r q) u"
inductive_simps matches_Or_simp [simp]: "matches (Or r q) u"
inductive_cases matches_ManyE: "matches (Many r) u"

section \<open>Searching\<close>

fun accepts_empty :: "regex \<Rightarrow> bool" where
  "accepts_empty Fail \<longleftrightarrow> False"
| "accepts_empty (Word w) \<longleftrightarrow> w = []"
| "accepts_empty NotNewline \<longleftrightarrow> False"
| "accepts_empty (Cat r q) \<longleftrightarrow> accepts_empty r \<and> accepts_empty q"
| "accepts_empty (Or r q) \<longleftrightarrow> accepts_empty r \<or> accepts_empty q"
| "accepts_empty (Many r) \<longleftrightarrow> True"

fun mk_cat :: "regex \<Rightarrow> regex \<Rightarrow> regex" where
  "mk_cat Fail q = Fail"
| "mk_cat r q = (if q = Fail then Fail else if r = Word [] then q else Cat r q)"

fun mk_or :: "regex \<Rightarrow> regex \<Rightarrow> regex" where
  "mk_or Fail q = q"
| "mk_or r q = (if q = Fail then r else Or r q)"

fun after :: "char \<Rightarrow> regex \<Rightarrow> regex" where
  "after c Fail = Fail"
| "after c (Word w) = (case w of [] \<Rightarrow> Fail | d # ds \<Rightarrow> if c = d then Word ds else Fail)"
| "after c NotNewline = (if c = CHR 0x0A then Fail else Word [])"
| "after c (Cat r q) =
     (if accepts_empty r then mk_or (mk_cat (after c r) q) (after c q) else mk_cat (after c r) q)"
| "after c (Or r q) = mk_or (after c r) (after c q)"
| "after c (Many r) = mk_cat (after c r) (Many r)"

text \<open>Does some prefix of the string match? Does some part of it?\<close>

fun match_prefix :: "regex \<Rightarrow> string \<Rightarrow> bool" where
  "match_prefix r [] = accepts_empty r"
| "match_prefix r (c # s) =
     (if accepts_empty r then True else if r = Fail then False else match_prefix (after c r) s)"

fun match_string :: "regex \<Rightarrow> string \<Rightarrow> bool" where
  "match_string r [] = match_prefix r []"
| "match_string r (c # s) = (match_prefix r (c # s) \<or> match_string r s)"

lemma accepts_empty_iff: "accepts_empty r \<longleftrightarrow> matches r []"
  by (induction r) (auto simp: matches_Cat_simp intro: matches.intros)

lemma mk_cat_matches: "matches (mk_cat r q) u \<longleftrightarrow> matches (Cat r q) u"
  by (cases r) (auto simp: matches_Cat_simp)

lemma mk_or_matches: "matches (mk_or r q) u \<longleftrightarrow> matches (Or r q) u"
  by (cases r) auto

lemma matches_Many_Cons:
  "matches (Many r) (c # u) \<longleftrightarrow> (\<exists>v w. u = v @ w \<and> matches r (c # v) \<and> matches (Many r) w)"
proof
  have "matches q x \<Longrightarrow> q = Many r \<Longrightarrow> x = c # u \<Longrightarrow>
    \<exists>v w. u = v @ w \<and> matches r (c # v) \<and> matches (Many r) w" for q x
    by (induction arbitrary: u rule: matches.induct) (auto simp: append_eq_Cons_conv)
  then show "matches (Many r) (c # u) \<Longrightarrow>
    \<exists>v w. u = v @ w \<and> matches r (c # v) \<and> matches (Many r) w" by blast
next
  assume "\<exists>v w. u = v @ w \<and> matches r (c # v) \<and> matches (Many r) w"
  then obtain v w where u: "u = v @ w" and "matches r (c # v)" and "matches (Many r) w" by blast
  then have "matches (Many r) ((c # v) @ w)" by (rule_tac matches_Many1)
  with u show "matches (Many r) (c # u)" by simp
qed

lemma after_matches: "matches (after c r) u \<longleftrightarrow> matches r (c # u)"
proof (induction r arbitrary: u)
  case (Word w)
  then show ?case by (cases w) auto
next
  case (Cat r q)
  then show ?case
    by (auto simp: mk_cat_matches mk_or_matches matches_Cat_simp accepts_empty_iff Cons_eq_append_conv)
next
  case (Many r)
  then show ?case by (auto simp: mk_cat_matches matches_Cat_simp matches_Many_Cons)
qed (auto simp: mk_or_matches)

lemma match_prefix_iff: "match_prefix r s \<longleftrightarrow> (\<exists>m b. s = m @ b \<and> matches r m)"
proof (induction r s rule: match_prefix.induct)
  case (2 r c s)
  show ?case
  proof (cases "accepts_empty r \<or> r = Fail")
    case True
    then show ?thesis by (auto simp: accepts_empty_iff)
  next
    case False
    then have "\<not> matches r []" by (simp add: accepts_empty_iff)
    with False "2.IH" show ?thesis
      by (auto simp: after_matches Cons_eq_append_conv)
  qed
qed (simp add: accepts_empty_iff)

lemma match_string_iff: "match_string r s \<longleftrightarrow> (\<exists>a m b. s = a @ m @ b \<and> matches r m)"
proof (induction s)
  case (Cons c s)
  have "match_string r (c # s) \<longleftrightarrow>
    (\<exists>m b. c # s = m @ b \<and> matches r m) \<or> (\<exists>a m b. s = a @ m @ b \<and> matches r m)"
    by (simp add: match_prefix_iff Cons.IH del: match_prefix.simps)
  also have "\<dots> \<longleftrightarrow> (\<exists>a m b. c # s = a @ m @ b \<and> matches r m)"
    by (auto simp: Cons_eq_append_conv) blast
  finally show ?case .
qed (simp add: accepts_empty_iff)

lemma match_string_Or: "match_string (Or r q) s \<longleftrightarrow> match_string r s \<or> match_string q s"
  unfolding match_string_iff matches_Or_simp by blast

section \<open>Literals and gaps under \<^verbatim>\<open>(?i)\<close>\<close>

definition to_upper_char :: "char \<Rightarrow> char" where
  "to_upper_char c = (let n = of_char c :: nat in if 97 \<le> n \<and> n \<le> 122 then char_of (n - 32) else c)"

definition ci_char :: "char \<Rightarrow> regex" where
  "ci_char c =
     Or (Word [c]) (Or (Word [to_upper_char c])
       (if c = CHR ''s'' then Word [CHR 0xC5, CHR 0xBF]
        else if c = CHR ''k'' then Word [CHR 0xE2, CHR 0x84, CHR 0xAA] else Fail))"

fun lit :: "string \<Rightarrow> regex" where
  "lit [] = Word []"
| "lit (c # cs) = Cat (ci_char c) (lit cs)"

text \<open>\<^verbatim>\<open>p.*?q\<close>\<close>

definition gap :: "string \<Rightarrow> string \<Rightarrow> regex" where
  "gap p q = Cat (lit p) (Cat (Many NotNewline) (lit q))"

fun alternatives :: "regex list \<Rightarrow> regex" where
  "alternatives [] = Fail"
| "alternatives (r # rs) = Or r (alternatives rs)"

lemma match_string_alternatives:
  "match_string (alternatives rs) s \<longleftrightarrow> (\<exists>r \<in> set rs. match_string r s)"
proof (induction rs)
  case (Cons r rs)
  then show ?case by (simp only: alternatives.simps match_string_Or) simp
qed (simp add: match_string_iff)

text \<open>
  On ASCII text a case-insensitive literal is a literal of the lower-cased text, so a search is a
  containment test.
\<close>

definition ascii :: "string \<Rightarrow> bool" where
  "ascii s \<longleftrightarrow> (\<forall>c \<in> set s. (of_char c :: nat) < 128)"

definition lower_text :: "string \<Rightarrow> bool" where
  "lower_text p \<longleftrightarrow> ascii p \<and> to_lower p = p"

lemma ascii_append [simp]: "ascii (u @ v) \<longleftrightarrow> ascii u \<and> ascii v"
  by (auto simp: ascii_def)

lemma to_lower_append [simp]: "to_lower (u @ v) = to_lower u @ to_lower v"
  by (simp add: to_lower_def)

lemma of_char_upper:
  "of_char (to_upper_char c) =
     (if 97 \<le> (of_char c :: nat) \<and> (of_char c :: nat) \<le> 122 then of_char c - 32 else of_char c :: nat)"
  by (auto simp: to_upper_char_def Let_def)

lemma of_char_lower:
  "of_char (to_lower_char c) =
     (if 65 \<le> (of_char c :: nat) \<and> (of_char c :: nat) \<le> 90 then of_char c + 32 else of_char c :: nat)"
  by (simp add: to_lower_char_def Let_def)

lemma char_eq_of_char: "c = d \<longleftrightarrow> (of_char c :: nat) = of_char d"
  by simp

lemma ci_char_case:
  assumes "to_lower_char c = c"
  shows "d = c \<or> d = to_upper_char c \<longleftrightarrow> to_lower_char d = c"
proof -
  have c: "\<not> (65 \<le> (of_char c :: nat) \<and> (of_char c :: nat) \<le> 90)"
    using assms of_char_lower [of c] by auto
  show ?thesis
    unfolding char_eq_of_char of_char_upper of_char_lower
    using c by auto
qed

lemma matches_ci_char:
  assumes "ascii u" and "to_lower_char c = c"
  shows "matches (ci_char c) u \<longleftrightarrow> to_lower u = [c]"
proof -
  have "matches (ci_char c) u \<longleftrightarrow> u = [c] \<or> u = [to_upper_char c]"
    using assms(1) by (auto simp: ci_char_def ascii_def)
  also have "\<dots> \<longleftrightarrow> (\<exists>d. u = [d] \<and> to_lower_char d = c)"
    using ci_char_case [OF assms(2)] by metis
  also have "\<dots> \<longleftrightarrow> to_lower u = [c]"
    by (cases u) (auto simp: to_lower_def)
  finally show ?thesis .
qed

lemma to_lower_split: "to_lower s = a @ b \<longleftrightarrow> (\<exists>u v. s = u @ v \<and> to_lower u = a \<and> to_lower v = b)"
  by (auto simp: to_lower_def map_eq_append_conv)

lemma matches_lit:
  assumes "ascii u" and "lower_text p"
  shows "matches (lit p) u \<longleftrightarrow> to_lower u = p"
  using assms
proof (induction p arbitrary: u)
  case Nil
  then show ?case by (simp add: to_lower_def)
next
  case (Cons c p)
  then have c: "to_lower_char c = c" and p: "lower_text p"
    by (auto simp: lower_text_def to_lower_def ascii_def)
  have "matches (lit (c # p)) u \<longleftrightarrow>
    (\<exists>v w. u = v @ w \<and> to_lower v = [c] \<and> to_lower w = p)"
    unfolding lit.simps matches_Cat_simp
    using Cons.prems(1) Cons.IH [OF _ p] matches_ci_char [OF _ c] ascii_append by metis
  also have "\<dots> \<longleftrightarrow> to_lower u = c # p"
    using to_lower_split [of u "[c]" p] by auto
  finally show ?case .
qed

lemma matches_Many_NotNewline: "matches (Many NotNewline) u \<longleftrightarrow> CHR 0x0A \<notin> set u"
proof (induction u)
  case (Cons c u)
  then show ?case by (auto simp: matches_Many_Cons)
qed (auto intro: matches.intros)

lemma match_string_lit:
  assumes "ascii s" and "lower_text p"
  shows "match_string (lit p) s \<longleftrightarrow> contains (to_lower s) p"
proof -
  have "match_string (lit p) s \<longleftrightarrow> (\<exists>a m b. s = a @ m @ b \<and> to_lower m = p)"
    unfolding match_string_iff using assms(1) matches_lit [OF _ assms(2)] ascii_append by metis
  then show ?thesis unfolding contains_iff to_lower_split by blast
qed

text \<open>Text \<open>p\<close>, later on the same line \<open>q\<close>.\<close>

definition contains_gap :: "string \<Rightarrow> string \<Rightarrow> string \<Rightarrow> bool" where
  "contains_gap s p q \<longleftrightarrow> (\<exists>a g b. s = a @ p @ g @ q @ b \<and> CHR 0x0A \<notin> set g)"

lemma to_lower_char_newline: "to_lower_char c = CHR 0x0A \<longleftrightarrow> c = CHR 0x0A"
proof -
  have "to_lower_char c = CHR 0x0A \<longleftrightarrow> of_char (to_lower_char c) = (10 :: nat)"
    using char_eq_of_char [of "to_lower_char c" "CHR 0x0A"] by simp
  also have "\<dots> \<longleftrightarrow> of_char c = (10 :: nat)"
    unfolding of_char_lower by auto
  also have "\<dots> \<longleftrightarrow> c = CHR 0x0A"
    using char_eq_of_char [of c "CHR 0x0A"] by simp
  finally show ?thesis .
qed

lemma to_lower_newline: "CHR 0x0A \<in> set (to_lower g) \<longleftrightarrow> CHR 0x0A \<in> set g"
  unfolding to_lower_def set_map image_iff using to_lower_char_newline by metis

lemma match_string_gap:
  assumes "ascii s" and "lower_text p" and "lower_text q"
  shows "match_string (gap p q) s \<longleftrightarrow> contains_gap (to_lower s) p q"
proof -
  have "match_string (gap p q) s \<longleftrightarrow>
    (\<exists>a m g n b. s = a @ m @ g @ n @ b \<and> to_lower m = p \<and> CHR 0x0A \<notin> set g \<and> to_lower n = q)"
    (is "_ \<longleftrightarrow> ?R")
  proof
    assume "match_string (gap p q) s"
    then obtain a m g n b where *: "s = a @ (m @ g @ n) @ b" and "matches (lit p) m"
      and "CHR 0x0A \<notin> set g" and "matches (lit q) n"
      by (auto simp: match_string_iff gap_def matches_Cat_simp matches_Many_NotNewline)
    moreover from * assms(1) have "ascii m" and "ascii n" by auto
    moreover from * have "s = a @ m @ g @ n @ b" by simp
    ultimately show ?R
      using matches_lit [OF _ assms(2)] matches_lit [OF _ assms(3)] by blast
  next
    assume ?R
    then obtain a m g n b where *: "s = a @ m @ g @ n @ b" and "to_lower m = p"
      and "CHR 0x0A \<notin> set g" and "to_lower n = q" by blast
    moreover from * assms(1) have "ascii m" and "ascii n" by auto
    ultimately have "matches (gap p q) (m @ g @ n)"
      unfolding gap_def matches_Cat_simp matches_Many_NotNewline
      using matches_lit [OF _ assms(2)] matches_lit [OF _ assms(3)] by blast
    with * show "match_string (gap p q) s"
      unfolding match_string_iff by (metis append.assoc)
  qed
  also have "\<dots> \<longleftrightarrow> contains_gap (to_lower s) p q" (is "_ \<longleftrightarrow> ?C")
  proof
    assume ?R
    then obtain a m g n b where "s = a @ m @ g @ n @ b" and "to_lower m = p"
      and "CHR 0x0A \<notin> set g" and "to_lower n = q" by blast
    then have "to_lower s = to_lower a @ p @ to_lower g @ q @ to_lower b"
      and "CHR 0x0A \<notin> set (to_lower g)"
      by (simp_all add: to_lower_newline)
    then show ?C unfolding contains_gap_def by blast
  next
    assume ?C
    then obtain a g b where "to_lower s = a @ p @ g @ q @ b" and "CHR 0x0A \<notin> set g"
      unfolding contains_gap_def by blast
    moreover from this obtain a' m g' n b' where "s = a' @ m @ g' @ n @ b'" and "to_lower m = p"
      and "to_lower g' = g" and "to_lower n = q"
      unfolding to_lower_split by blast
    ultimately show ?R using to_lower_newline [of g'] by blast
  qed
  finally show ?thesis .
qed

end
