(* ===== verification/ErrorClassification.thy ===== *)
theory ErrorClassification
  imports Regex
begin

text \<open>
  \<^verbatim>\<open>pkg/kubernetes/error_classification.go\<close>: the four compiled patterns, in the source's order of
  alternatives, and \<^verbatim>\<open>ClassifyLeaderElectionError\<close>, which tries them in turn. On ASCII messages the
  classification is proved equal to plain containment tests on the lower-cased message.
\<close>

definition rateLimitRegex :: regex where
  "rateLimitRegex = alternatives
     [lit ''rate limit'', lit ''rate limiter'', lit ''too many requests'', lit ''throttl'', lit ''429'',
      gap ''client rate limiter wait'' ''context deadline exceeded'']"

definition leaderLostRegex :: regex where
  "leaderLostRegex = alternatives
     [gap ''leader'' ''lost'', gap ''lost'' ''leader'', gap ''leader'' ''change'', gap ''lease'' ''expire'',
      lit ''stopped leading unexpectedly'']"

definition watchFailedRegex :: regex where
  "watchFailedRegex = alternatives
     [gap ''watch'' ''fail'', gap ''watch'' ''close'', gap ''watch'' ''error'', gap ''watch'' ''stop'',
      lit ''connection refused'', lit ''connection reset'']"

definition timeoutRegex :: regex where
  "timeoutRegex = alternatives [lit ''timeout'', lit ''timed out'', lit ''deadline exceed'']"

definition ClassifyLeaderElectionError :: "go_error option \<Rightarrow> string" where
  "ClassifyLeaderElectionError err =
     (case err of
        None \<Rightarrow> ''unknown''
      | Some errString \<Rightarrow>
          (if match_string rateLimitRegex errString then ''rate_limit''
           else if match_string leaderLostRegex errString then ''leadership_lost''
           else if match_string watchFailedRegex errString then ''watch_failure''
           else if match_string timeoutRegex errString then ''timeout''
           else ''unknown''))"

declare alternatives.simps [simp del] lit.simps [simp del]

section \<open>The patterns as containment tests\<close>

definition is_rate_limit :: "string \<Rightarrow> bool" where
  "is_rate_limit m \<longleftrightarrow>
     contains m ''rate limit'' \<or> contains m ''too many requests'' \<or> contains m ''throttl'' \<or> contains m ''429''"

definition is_leader_lost :: "string \<Rightarrow> bool" where
  "is_leader_lost m \<longleftrightarrow>
     contains_gap m ''leader'' ''lost'' \<or> contains_gap m ''lost'' ''leader'' \<or>
     contains_gap m ''leader'' ''change'' \<or> contains_gap m ''lease'' ''expire'' \<or>
     contains m ''stopped leading unexpectedly''"

definition is_watch_failed :: "string \<Rightarrow> bool" where
  "is_watch_failed m \<longleftrightarrow>
     contains_gap m ''watch'' ''fail'' \<or> contains_gap m ''watch'' ''close'' \<or>
     contains_gap m ''watch'' ''error'' \<or> contains_gap m ''watch'' ''stop'' \<or>
     contains m ''connection refused'' \<or> contains m ''connection reset''"

definition is_timeout :: "string \<Rightarrow> bool" where
  "is_timeout m \<longleftrightarrow> contains m ''timeout'' \<or> contains m ''timed out'' \<or> contains m ''deadline exceed''"

lemma lower_text_literals:
  "lower_text ''rate limit''" "lower_text ''rate limiter''" "lower_text ''too many requests''"
  "lower_text ''throttl''" "lower_text ''429''" "lower_text ''client rate limiter wait''"
  "lower_text ''context deadline exceeded''" "lower_text ''leader''" "lower_text ''lost''"
  "lower_text ''change''" "lower_text ''lease''" "lower_text ''expire''"
  "lower_text ''stopped leading unexpectedly''" "lower_text ''watch''" "lower_text ''fail''"
  "lower_text ''close''" "lower_text ''error''" "lower_text ''stop''" "lower_text ''connection refused''"
  "lower_text ''connection reset''" "lower_text ''timeout''" "lower_text ''timed out''"
  "lower_text ''deadline exceed''"
  by code_simp+

lemmas search_simps = match_string_alternatives match_string_lit match_string_gap lower_text_literals

lemma contains_trans: "contains m p \<Longrightarrow> contains p q \<Longrightarrow> contains m q"
  unfolding contains_def by (rule sublist_order.order.trans)

lemma contains_gap_left: "contains_gap m p q \<Longrightarrow> contains m p"
  by (auto simp: contains_gap_def contains_iff)

lemma rate_limit_redundant:
  "contains m ''rate limiter'' \<Longrightarrow> contains m ''rate limit''"
  "contains_gap m ''client rate limiter wait'' q \<Longrightarrow> contains m ''rate limit''"
proof -
  have "contains ''rate limiter'' ''rate limit''" and "contains ''client rate limiter wait'' ''rate limit''"
    by code_simp+
  then show "contains m ''rate limiter'' \<Longrightarrow> contains m ''rate limit''"
    and "contains_gap m ''client rate limiter wait'' q \<Longrightarrow> contains m ''rate limit''"
    by (blast intro: contains_trans contains_gap_left)+
qed

lemma rateLimitRegex_ascii: "ascii s \<Longrightarrow> match_string rateLimitRegex s \<longleftrightarrow> is_rate_limit (to_lower s)"
  using rate_limit_redundant [of "to_lower s"]
  by (auto simp: rateLimitRegex_def is_rate_limit_def search_simps)

lemma leaderLostRegex_ascii: "ascii s \<Longrightarrow> match_string leaderLostRegex s \<longleftrightarrow> is_leader_lost (to_lower s)"
  by (simp add: leaderLostRegex_def is_leader_lost_def search_simps)

lemma watchFailedRegex_ascii: "ascii s \<Longrightarrow> match_string watchFailedRegex s \<longleftrightarrow> is_watch_failed (to_lower s)"
  by (simp add: watchFailedRegex_def is_watch_failed_def search_simps)

lemma timeoutRegex_ascii: "ascii s \<Longrightarrow> match_string timeoutRegex s \<longleftrightarrow> is_timeout (to_lower s)"
  by (simp add: timeoutRegex_def is_timeout_def search_simps)

section \<open>Properties\<close>

text \<open>
  C22. On every ASCII message the classifier is a chain of containment tests on the lower-cased
  message, rate limiting first, then leadership loss, watch failures and timeouts. In particular the
  alternatives \<^verbatim>\<open>rate limiter\<close> and \<^verbatim>\<open>client rate limiter Wait.*context deadline exceeded\<close> never decide
  anything: \<^verbatim>\<open>rate limit\<close> covers them.
\<close>

theorem classification_by_containment:
  assumes "ascii e"
  shows "ClassifyLeaderElectionError (Some e) =
    (let m = to_lower e in
     if is_rate_limit m then ''rate_limit''
     else if is_leader_lost m then ''leadership_lost''
     else if is_watch_failed m then ''watch_failure''
     else if is_timeout m then ''timeout''
     else ''unknown'')"
  using assms
  by (simp add: ClassifyLeaderElectionError_def rateLimitRegex_ascii leaderLostRegex_ascii
      watchFailedRegex_ascii timeoutRegex_ascii Let_def)

text \<open>An executable form of the gap test, to evaluate the classification of concrete messages.\<close>

fun find_gap :: "string \<Rightarrow> string \<Rightarrow> string \<Rightarrow> bool" where
  "find_gap p q [] \<longleftrightarrow> p = [] \<and> q = []"
| "find_gap p q (c # s) \<longleftrightarrow>
     (prefix p (c # s) \<and> contains (takeWhile (\<lambda>d. d \<noteq> CHR 0x0A) (drop (length p) (c # s))) q)
     \<or> find_gap p q s"

lemma contains_line:
  assumes "CHR 0x0A \<notin> set q"
  shows "contains (takeWhile (\<lambda>d. d \<noteq> CHR 0x0A) t) q \<longleftrightarrow> (\<exists>g b. t = g @ q @ b \<and> CHR 0x0A \<notin> set g)"
proof
  assume "contains (takeWhile (\<lambda>d. d \<noteq> CHR 0x0A) t) q"
  then obtain g b where g: "takeWhile (\<lambda>d. d \<noteq> CHR 0x0A) t = g @ q @ b" by (auto simp: contains_iff)
  then have "\<forall>d \<in> set (g @ q @ b). d \<noteq> CHR 0x0A" by (metis set_takeWhileD)
  moreover have "t = (g @ q @ b) @ dropWhile (\<lambda>d. d \<noteq> CHR 0x0A) t"
    by (metis g takeWhile_dropWhile_id)
  ultimately show "\<exists>g b. t = g @ q @ b \<and> CHR 0x0A \<notin> set g" by auto
next
  assume "\<exists>g b. t = g @ q @ b \<and> CHR 0x0A \<notin> set g"
  then obtain g b where "t = (g @ q) @ b" and "\<forall>d \<in> set (g @ q). d \<noteq> CHR 0x0A"
    using assms by auto
  then have "takeWhile (\<lambda>d. d \<noteq> CHR 0x0A) t = g @ q @ takeWhile (\<lambda>d. d \<noteq> CHR 0x0A) b"
    by (simp add: takeWhile_append2)
  then show "contains (takeWhile (\<lambda>d. d \<noteq> CHR 0x0A) t) q" by (auto simp: contains_iff)
qed

lemma find_gap_iff:
  assumes "CHR 0x0A \<notin> set q"
  shows "find_gap p q s \<longleftrightarrow> contains_gap s p q"
proof (induction s)
  case (Cons c s)
  have "prefix p (c # s) \<and> contains (takeWhile (\<lambda>d. d \<noteq> CHR 0x0A) (drop (length p) (c # s))) q \<longleftrightarrow>
    (\<exists>g b. c # s = p @ g @ q @ b \<and> CHR 0x0A \<notin> set g)"
    unfolding contains_line [OF assms] by (auto simp: prefix_def) (metis append_eq_conv_conj)+
  then have "find_gap p q (c # s) \<longleftrightarrow>
    (\<exists>g b. c # s = p @ g @ q @ b \<and> CHR 0x0A \<notin> set g) \<or> contains_gap s p q"
    using Cons.IH by simp
  also have "\<dots> \<longleftrightarrow> contains_gap (c # s) p q"
    unfolding contains_gap_def by (auto simp: Cons_eq_append_conv [of c s]) blast+
  finally show ?case .
qed (auto simp: contains_gap_def)

lemma not_leader_lost:
  "\<not> contains m ''leader'' \<Longrightarrow> \<not> contains m ''lost'' \<Longrightarrow> \<not> contains m ''lease'' \<Longrightarrow>
   \<not> contains m ''stopped leading unexpectedly'' \<Longrightarrow> \<not> is_leader_lost m"
  by (auto simp: is_leader_lost_def dest: contains_gap_left)

lemma not_watch_failed:
  "\<not> find_gap ''watch'' ''fail'' m \<Longrightarrow> \<not> find_gap ''watch'' ''close'' m \<Longrightarrow>
   \<not> find_gap ''watch'' ''error'' m \<Longrightarrow> \<not> find_gap ''watch'' ''stop'' m \<Longrightarrow>
   \<not> contains m ''connection refused'' \<Longrightarrow> \<not> contains m ''connection reset'' \<Longrightarrow> \<not> is_watch_failed m"
  by (simp add: is_watch_failed_def find_gap_iff)

text \<open>The two messages the program itself sends to its leader-election monitor.\<close>

lemma classify_stopped_leading:
  "ClassifyLeaderElectionError (Some ''stopped leading unexpectedly'') = ''leadership_lost''"
proof -
  let ?a = "''stopped leading unexpectedly''"
  have "contains (to_lower ?a) ?a" by code_simp
  then have "is_leader_lost (to_lower ?a)" by (simp only: is_leader_lost_def simp_thms)
  moreover have "ascii ?a" and "\<not> is_rate_limit (to_lower ?a)" by code_simp+
  ultimately show ?thesis
    by (simp only: ClassifyLeaderElectionError_def option.case rateLimitRegex_ascii
        leaderLostRegex_ascii if_True if_False)
qed

lemma classify_watch_sync_timeout:
  "ClassifyLeaderElectionError
     (Some ''Error watching nodes: timed out waiting for node informer cache to sync'') = ''timeout''"
proof -
  let ?b = "''Error watching nodes: timed out waiting for node informer cache to sync''"
  have "ascii ?b" and "\<not> is_rate_limit (to_lower ?b)" and "is_timeout (to_lower ?b)" by code_simp+
  moreover have "\<not> is_leader_lost (to_lower ?b)" by (rule not_leader_lost) code_simp+
  moreover have "\<not> is_watch_failed (to_lower ?b)" by (rule not_watch_failed) code_simp+
  ultimately show ?thesis
    by (simp only: ClassifyLeaderElectionError_def option.case rateLimitRegex_ascii
        leaderLostRegex_ascii watchFailedRegex_ascii timeoutRegex_ascii if_True if_False)
qed

theorem classification_by_containment_witness:
  "ascii ''HTTP 429'' \<and> ClassifyLeaderElectionError (Some ''HTTP 429'') = ''rate_limit''"
proof -
  have a: "ascii ''HTTP 429''" by code_simp
  have "contains (to_lower ''HTTP 429'') ''429''"
    by (simp add: contains_def) code_simp
  then show ?thesis
    using a classification_by_containment [OF a] by (simp add: is_rate_limit_def Let_def)
qed

end
