(* ===== verification/Config.thy ===== *)
theory Config
  imports GoLib
begin

text \<open>
  \<^verbatim>\<open>pkg/config/config.go\<close>: the configuration record, its defaults, the loaders (file, environment,
  both) and \<^verbatim>\<open>Validate\<close>. The operating system and the YAML decoder are a parameter (\<open>os_env\<close>):
  \<open>getenv\<close> returns the empty string for an unset variable, as \<^verbatim>\<open>os.Getenv\<close> does; \<open>file_exists\<close> is
  \<^verbatim>\<open>os.Stat\<close> without an error; \<open>yaml_unmarshal data c\<close> is \<^verbatim>\<open>yaml.Unmarshal(data, c)\<close> with the
  decoded configuration as its result. Durations are nanoseconds.
\<close>

record database =
  db_ID :: string
  db_Name :: string

record nodepool =
  np_Name :: string
  np_Databases :: "database list"

record retry_config =
  MaxAttempts :: int
  InitialBackoff :: int
  MaxBackoff :: int

record config =
  Nodepools :: "nodepool list"
  APIRateLimit :: int
  LinodeToken :: string
  Retry :: retry_config
  LogLevel :: string
  NodepoolLabelKey :: string
  EnableIPv4 :: bool
  EnableIPv6 :: bool

definition time_Second :: int where
  "time_Second = 1000000000"

definition DefaultConfig :: config where
  "DefaultConfig =
     \<lparr>Nodepools = [],
      APIRateLimit = 100,
      LinodeToken = [],
      Retry = \<lparr>MaxAttempts = 5, InitialBackoff = time_Second, MaxBackoff = 30 * time_Second\<rparr>,
      LogLevel = ''info'',
      NodepoolLabelKey = ''lke.linode.com/pool-id'',
      EnableIPv4 = True,
      EnableIPv6 = False\<rparr>"

record os_env =
  getenv :: "string \<Rightarrow> string"
  abs_path :: "string \<Rightarrow> string result"
  file_exists :: "string \<Rightarrow> bool"
  read_file :: "string \<Rightarrow> string result"
  yaml_unmarshal :: "string \<Rightarrow> config \<Rightarrow> config result"

section \<open>Loading\<close>

definition LoadFromFile :: "os_env \<Rightarrow> string \<Rightarrow> config result" where
  "LoadFromFile os path =
     (case read_file os path of
        Inl err \<Rightarrow> Inl (''error reading config file: '' @ err)
      | Inr data \<Rightarrow>
          (case yaml_unmarshal os data DefaultConfig of
             Inl err \<Rightarrow> Inl (''error parsing config file: '' @ err)
           | Inr c \<Rightarrow> Inr c))"

text \<open>
  The overrides of the environment other than the token, one \<^verbatim>\<open>if\<close> statement each; the same
  statements stand in \<^verbatim>\<open>LoadFromEnv\<close> and in \<^verbatim>\<open>Load\<close>.
\<close>

definition env_APIRateLimit :: "os_env \<Rightarrow> config \<Rightarrow> config" where
  "env_APIRateLimit os c =
     (let val = getenv os ''API_RATE_LIMIT'' in
      if val = [] then c
      else (case sscanf_d val of
              Some limit \<Rightarrow> if limit > 0 then c\<lparr>APIRateLimit := limit\<rparr> else c
            | None \<Rightarrow> c))"

definition env_LogLevel :: "os_env \<Rightarrow> config \<Rightarrow> config" where
  "env_LogLevel os c =
     (let val = getenv os ''LOG_LEVEL'' in
      if val = [] then c else c\<lparr>LogLevel := to_lower val\<rparr>)"

definition env_NodepoolLabelKey :: "os_env \<Rightarrow> config \<Rightarrow> config" where
  "env_NodepoolLabelKey os c =
     (let val = getenv os ''NODEPOOL_LABEL_KEY'' in
      if val = [] then c else c\<lparr>NodepoolLabelKey := val\<rparr>)"

definition env_EnableIPs :: "os_env \<Rightarrow> config \<Rightarrow> config" where
  "env_EnableIPs os c =
     (let v4 = getenv os ''ENABLE_IPV4'';
          c1 = (if v4 = [] then c else c\<lparr>EnableIPv4 := (to_lower v4 = ''true'')\<rparr>);
          v6 = getenv os ''ENABLE_IPV6''
      in if v6 = [] then c1 else c1\<lparr>EnableIPv6 := (to_lower v6 = ''true'')\<rparr>)"

definition env_overrides :: "os_env \<Rightarrow> config \<Rightarrow> config" where
  "env_overrides os c =
     env_EnableIPs os (env_NodepoolLabelKey os (env_LogLevel os (env_APIRateLimit os c)))"

definition LoadFromEnv :: "os_env \<Rightarrow> config" where
  "LoadFromEnv os = env_overrides os (DefaultConfig\<lparr>LinodeToken := getenv os ''LINODE_TOKEN''\<rparr>)"

section \<open>Validation\<close>

definition validLogLevels :: "string list" where
  "validLogLevels = [''debug'', ''info'', ''warn'', ''error'']"

fun validate_databases :: "string \<Rightarrow> database list \<Rightarrow> go_error option" where
  "validate_databases np [] = None"
| "validate_databases np (db # dbs) =
     (if db_ID db = [] then Some (''database ID cannot be empty in nodepool '' @ np)
      else if db_Name db = [] then Some (''database name cannot be empty in nodepool '' @ np)
      else validate_databases np dbs)"

fun validate_nodepools :: "nodepool list \<Rightarrow> go_error option" where
  "validate_nodepools [] = None"
| "validate_nodepools (np # nps) =
     (if np_Name np = [] then Some ''nodepool name cannot be empty''
      else if np_Databases np = []
        then Some (''nodepool '' @ np_Name np @ '' must have at least one database'')
      else (case validate_databases (np_Name np) (np_Databases np) of
              Some err \<Rightarrow> Some err
            | None \<Rightarrow> validate_nodepools nps))"

definition Validate :: "config \<Rightarrow> go_error option" where
  "Validate c =
     (if LinodeToken c = [] then Some ''Linode token is required''
      else if Nodepools c = [] then Some ''at least one nodepool must be configured''
      else if LogLevel c \<notin> set validLogLevels
        then Some (''invalid log level: '' @ LogLevel c @ ''. Valid values are: debug, info, warn, error'')
      else if NodepoolLabelKey c = [] then Some ''nodepool label key cannot be empty''
      else if \<not> EnableIPv4 c \<and> \<not> EnableIPv6 c
        then Some ''at least one IP version (IPv4 or IPv6) must be enabled''
      else (case validate_nodepools (Nodepools c) of
              Some err \<Rightarrow> Some err
            | None \<Rightarrow>
                (if APIRateLimit c \<le> 0 then Some ''API rate limit must be a positive integer''
                 else if MaxAttempts (Retry c) \<le> 0
                   then Some ''retry max attempts must be a positive integer''
                 else if InitialBackoff (Retry c) < 0
                   then Some ''retry initial backoff must be non-negative''
                 else if MaxBackoff (Retry c) < 0
                   then Some ''retry max backoff must be non-negative''
                 else if InitialBackoff (Retry c) > MaxBackoff (Retry c) \<and> MaxBackoff (Retry c) \<noteq> 0
                   then Some ''retry max backoff must be greater than or equal to initial backoff''
                 else None)))"

definition Load :: "os_env \<Rightarrow> string \<Rightarrow> config result" where
  "Load os configPath =
     (let loaded =
        (if configPath \<noteq> [] then
           (case abs_path os configPath of
              Inl err \<Rightarrow> Inl (''invalid config path: '' @ err)
            | Inr absPath \<Rightarrow>
                (if file_exists os absPath then LoadFromFile os absPath else Inr DefaultConfig))
         else Inr DefaultConfig)
      in case loaded of
           Inl err \<Rightarrow> Inl err
         | Inr c0 \<Rightarrow>
             (let token = getenv os ''LINODE_TOKEN'';
                  c1 = (if token \<noteq> [] then c0\<lparr>LinodeToken := token\<rparr> else c0);
                  c2 = env_overrides os c1
              in case Validate c2 of Some err \<Rightarrow> Inl err | None \<Rightarrow> Inr c2))"

section \<open>What a valid configuration is\<close>

definition valid_nodepool :: "nodepool \<Rightarrow> bool" where
  "valid_nodepool np \<longleftrightarrow>
     np_Name np \<noteq> [] \<and> np_Databases np \<noteq> [] \<and>
     (\<forall>db \<in> set (np_Databases np). db_ID db \<noteq> [] \<and> db_Name db \<noteq> [])"

definition valid_retry :: "retry_config \<Rightarrow> bool" where
  "valid_retry r \<longleftrightarrow>
     0 < MaxAttempts r \<and> 0 \<le> InitialBackoff r \<and> 0 \<le> MaxBackoff r \<and>
     (MaxBackoff r = 0 \<or> InitialBackoff r \<le> MaxBackoff r)"

definition valid_config :: "config \<Rightarrow> bool" where
  "valid_config c \<longleftrightarrow>
     LinodeToken c \<noteq> [] \<and>
     Nodepools c \<noteq> [] \<and> (\<forall>np \<in> set (Nodepools c). valid_nodepool np) \<and>
     LogLevel c \<in> {''debug'', ''info'', ''warn'', ''error''} \<and>
     NodepoolLabelKey c \<noteq> [] \<and>
     (EnableIPv4 c \<or> EnableIPv6 c) \<and>
     0 < APIRateLimit c \<and>
     valid_retry (Retry c)"

lemma validate_databases_None:
  "validate_databases np dbs = None \<longleftrightarrow> (\<forall>db \<in> set dbs. db_ID db \<noteq> [] \<and> db_Name db \<noteq> [])"
  by (induction dbs) auto

lemma validate_nodepools_None:
  "validate_nodepools nps = None \<longleftrightarrow> (\<forall>np \<in> set nps. valid_nodepool np)"
proof (induction nps)
  case (Cons np nps)
  then show ?case
    using validate_databases_None [of "np_Name np" "np_Databases np"]
    by (cases "validate_databases (np_Name np) (np_Databases np)") (auto simp: valid_nodepool_def)
qed simp

lemma Validate_None_iff: "Validate c = None \<longleftrightarrow> valid_config c"
  by (auto simp: Validate_def valid_config_def validLogLevels_def valid_retry_def
      validate_nodepools_None [symmetric] split: option.splits)

lemma env_overrides_fields:
  "LinodeToken (env_overrides os c) = LinodeToken c"
  "Nodepools (env_overrides os c) = Nodepools c"
  "Retry (env_overrides os c) = Retry c"
  "LogLevel (env_overrides os c) =
     (let v = getenv os ''LOG_LEVEL'' in if v = [] then LogLevel c else to_lower v)"
  "NodepoolLabelKey (env_overrides os c) =
     (let v = getenv os ''NODEPOOL_LABEL_KEY'' in if v = [] then NodepoolLabelKey c else v)"
  "EnableIPv4 (env_overrides os c) =
     (let v = getenv os ''ENABLE_IPV4'' in if v = [] then EnableIPv4 c else to_lower v = ''true'')"
  "EnableIPv6 (env_overrides os c) =
     (let v = getenv os ''ENABLE_IPV6'' in if v = [] then EnableIPv6 c else to_lower v = ''true'')"
  "APIRateLimit (env_overrides os c) =
     (case sscanf_d (getenv os ''API_RATE_LIMIT'') of
        Some n \<Rightarrow> if getenv os ''API_RATE_LIMIT'' \<noteq> [] \<and> 0 < n then n else APIRateLimit c
      | None \<Rightarrow> APIRateLimit c)"
  by (simp_all add: env_overrides_def env_EnableIPs_def env_NodepoolLabelKey_def env_LogLevel_def
      env_APIRateLimit_def Let_def split: option.splits)

lemma LoadFromEnv_alt:
  "LoadFromEnv os =
     env_overrides os
       (if getenv os ''LINODE_TOKEN'' \<noteq> []
        then DefaultConfig\<lparr>LinodeToken := getenv os ''LINODE_TOKEN''\<rparr> else DefaultConfig)"
  by (simp add: LoadFromEnv_def DefaultConfig_def)

text \<open>
  The configuration \<^verbatim>\<open>Load\<close> starts from, before the environment is applied.
\<close>

definition config_base :: "os_env \<Rightarrow> string \<Rightarrow> config result" where
  "config_base os path =
     (if path = [] then Inr DefaultConfig
      else case abs_path os path of
             Inl err \<Rightarrow> Inl (''invalid config path: '' @ err)
           | Inr p \<Rightarrow> if file_exists os p then LoadFromFile os p else Inr DefaultConfig)"

lemma Load_alt:
  "Load os path =
     (case config_base os path of
        Inl err \<Rightarrow> Inl err
      | Inr c0 \<Rightarrow>
          (let c = env_overrides os
               (if getenv os ''LINODE_TOKEN'' \<noteq> [] then c0\<lparr>LinodeToken := getenv os ''LINODE_TOKEN''\<rparr> else c0)
           in case Validate c of Some err \<Rightarrow> Inl err | None \<Rightarrow> Inr c))"
  by (auto simp: Load_def config_base_def Let_def split: sum.splits)

section \<open>Properties\<close>

text \<open>
  A concrete environment for the witnesses: a configuration file with one pool, the token, the
  rate limit and the log level in the environment.
\<close>

definition demo_file_config :: config where
  "demo_file_config =
     DefaultConfig\<lparr>Nodepools := [\<lparr>np_Name = ''prod'', np_Databases = [\<lparr>db_ID = ''1'', db_Name = ''main''\<rparr>]\<rparr>]\<rparr>"

definition demo_os :: os_env where
  "demo_os =
     \<lparr>getenv = (\<lambda>k. if k = ''LINODE_TOKEN'' then ''tok'' else if k = ''API_RATE_LIMIT'' then ''42rpm''
                    else if k = ''LOG_LEVEL'' then ''DEBUG'' else []),
      abs_path = (\<lambda>p. Inr (''/'' @ p)),
      file_exists = (\<lambda>p. p = ''/cfg''),
      read_file = (\<lambda>p. if p = ''/cfg'' then Inr ''nodepools'' else Inl ''no such file''),
      yaml_unmarshal = (\<lambda>d c. if d = ''nodepools'' then Inr demo_file_config else Inl ''yaml'')\<rparr>"

lemma demo_base: "config_base demo_os ''cfg'' = Inr demo_file_config"
  by (simp add: config_base_def demo_os_def LoadFromFile_def)

lemma demo_rate_limit: "sscanf_d ''42rpm'' = Some 42"
proof -
  have "''42rpm'' = decimal 42 @ ''rpm''" by code_simp
  moreover have "sscanf_d (decimal 42 @ ''rpm'') = Some 42"
    by (rule sscanf_d_decimal) (simp_all add: int64_range_def is_digit_def)
  ultimately show ?thesis by (simp only:)
qed

definition demo_config :: config where
  "demo_config = demo_file_config\<lparr>LinodeToken := ''tok'', APIRateLimit := 42, LogLevel := ''debug''\<rparr>"

lemma demo_config_valid: "Validate demo_config = None"
  by (simp add: demo_config_def demo_file_config_def DefaultConfig_def Validate_def validLogLevels_def
      time_Second_def)

lemma demo_overrides:
  "env_overrides demo_os (demo_file_config\<lparr>LinodeToken := ''tok''\<rparr>) = demo_config"
proof -
  have "to_lower ''DEBUG'' = ''debug''" by code_simp
  then show ?thesis
    by (simp add: env_overrides_def env_APIRateLimit_def env_LogLevel_def env_NodepoolLabelKey_def
        env_EnableIPs_def demo_os_def demo_config_def demo_rate_limit)
qed

lemma demo_Load: "Load demo_os ''cfg'' = Inr demo_config"
proof -
  have "getenv demo_os ''LINODE_TOKEN'' = ''tok''" by (simp add: demo_os_def)
  then show ?thesis by (simp add: Load_alt demo_base demo_overrides demo_config_valid)
qed

text \<open>
  C19. \<^verbatim>\<open>Validate\<close> accepts a configuration exactly when it is valid: a token, at least one pool, every
  pool named and with named databases that have an ID, a known log level, a label key, an enabled
  IP version, a positive rate limit and a retry section whose bounds are ordered (or whose maximum
  is 0).
\<close>

theorem Validate_accepts_iff_valid: "Validate c = None \<longleftrightarrow> valid_config c"
  by (rule Validate_None_iff)

text \<open>
  C20. A configuration \<^verbatim>\<open>Load\<close> returns is valid, and each of its fields comes from the source with
  the highest precedence: the environment variable when it is set (and, for the rate limit, when it
  scans to a positive number), else the file, else the defaults. Pools and retry settings come from
  the file or the defaults only.
\<close>

theorem Load_precedence:
  assumes "Load os path = Inr c"
  shows "valid_config c \<and>
    (\<exists>c0. config_base os path = Inr c0 \<and>
       LinodeToken c = (if getenv os ''LINODE_TOKEN'' = [] then LinodeToken c0 else getenv os ''LINODE_TOKEN'') \<and>
       Nodepools c = Nodepools c0 \<and>
       Retry c = Retry c0 \<and>
       LogLevel c = (if getenv os ''LOG_LEVEL'' = [] then LogLevel c0 else to_lower (getenv os ''LOG_LEVEL'')) \<and>
       NodepoolLabelKey c =
         (if getenv os ''NODEPOOL_LABEL_KEY'' = [] then NodepoolLabelKey c0 else getenv os ''NODEPOOL_LABEL_KEY'') \<and>
       EnableIPv4 c =
         (if getenv os ''ENABLE_IPV4'' = [] then EnableIPv4 c0 else to_lower (getenv os ''ENABLE_IPV4'') = ''true'') \<and>
       EnableIPv6 c =
         (if getenv os ''ENABLE_IPV6'' = [] then EnableIPv6 c0 else to_lower (getenv os ''ENABLE_IPV6'') = ''true'') \<and>
       APIRateLimit c =
         (case sscanf_d (getenv os ''API_RATE_LIMIT'') of
            Some n \<Rightarrow> if getenv os ''API_RATE_LIMIT'' \<noteq> [] \<and> 0 < n then n else APIRateLimit c0
          | None \<Rightarrow> APIRateLimit c0))"
proof (cases "config_base os path")
  case (Inr c0)
  with assms have
    "c = env_overrides os
       (if getenv os ''LINODE_TOKEN'' \<noteq> [] then c0\<lparr>LinodeToken := getenv os ''LINODE_TOKEN''\<rparr> else c0)"
    and "Validate c = None"
    by (auto simp: Load_alt Let_def split: option.splits)
  with Inr show ?thesis
    by (simp add: Validate_None_iff) (simp add: env_overrides_fields Let_def split: option.split)
qed (use assms in \<open>simp add: Load_alt\<close>)

theorem Load_precedence_witness:
  "valid_config demo_config"
  using Load_precedence [OF demo_Load] by simp

text \<open>
  Without a configuration file (no path, or a path at which nothing exists) \<^verbatim>\<open>Load\<close> always fails,
  whatever the environment holds: the environment can supply the token but never a pool.
\<close>

theorem Load_without_file_fails:
  assumes "path = [] \<or> (\<exists>p. abs_path os path = Inr p \<and> \<not> file_exists os p)"
  shows "Load os path =
    Inl (if getenv os ''LINODE_TOKEN'' = [] then ''Linode token is required''
         else ''at least one nodepool must be configured'')"
proof -
  have "config_base os path = Inr DefaultConfig"
    using assms by (auto simp: config_base_def)
  moreover define c where
    "c = env_overrides os
       (if getenv os ''LINODE_TOKEN'' \<noteq> []
        then DefaultConfig\<lparr>LinodeToken := getenv os ''LINODE_TOKEN''\<rparr> else DefaultConfig)"
  moreover have "LinodeToken c = getenv os ''LINODE_TOKEN''" and "Nodepools c = []"
    by (simp_all add: c_def env_overrides_fields(1,2)) (simp_all add: DefaultConfig_def)
  then have "Validate c =
    Some (if getenv os ''LINODE_TOKEN'' = [] then ''Linode token is required''
          else ''at least one nodepool must be configured'')"
    by (simp add: Validate_def)
  ultimately show ?thesis by (simp add: Load_alt Let_def)
qed

theorem Load_without_file_fails_witness:
  "Load demo_os ''missing'' = Inl ''at least one nodepool must be configured''"
  using Load_without_file_fails [of "''missing''" demo_os] by (simp add: demo_os_def)

text \<open>
  The rate limit given in the environment as a decimal number is the one the loaded
  configuration has, for every positive 64-bit number and whatever text follows its digits.
\<close>

theorem Load_rate_limit_roundtrip:
  assumes "Load os path = Inr c"
    and "getenv os ''API_RATE_LIMIT'' = decimal n @ rest"
    and "0 < n" and "int64_range n" and "rest = [] \<or> \<not> is_digit (hd rest)"
  shows "APIRateLimit c = n"
proof -
  have "sscanf_d (getenv os ''API_RATE_LIMIT'') = Some n"
    using sscanf_d_decimal assms by simp
  moreover from this have "getenv os ''API_RATE_LIMIT'' \<noteq> []"
    by (auto simp: sscanf_d_def skip_space.simps)
  moreover obtain c0 where "c = env_overrides os c0"
    using assms(1) by (auto simp: Load_alt Let_def split: sum.splits option.splits)
  ultimately show ?thesis
    using assms(3) by (simp add: env_overrides_fields)
qed

theorem Load_rate_limit_roundtrip_witness:
  "APIRateLimit demo_config = 42"
proof (rule Load_rate_limit_roundtrip [OF demo_Load, where rest = "''rpm''"])
  have "''42rpm'' = decimal 42 @ ''rpm''" by code_simp
  then show "getenv demo_os ''API_RATE_LIMIT'' = decimal 42 @ ''rpm''"
    by (simp add: demo_os_def)
qed (simp_all add: int64_range_def is_digit_def)

end
