(* ===== verification/Retry.thy ===== *)
theory Retry
  imports Config
begin

text \<open>
  \<^verbatim>\<open>pkg/utils/retry.go\<close>. The retried function and the runtime act on a state \<open>'s\<close> that stands for
  everything they can read and change. The runtime (\<open>retry_env\<close>) gives \<^verbatim>\<open>ctx.Err()\<close>, the random number
  generator, the outcome of the \<^verbatim>\<open>select\<close> between \<^verbatim>\<open>ctx.Done()\<close> and the backoff timer (\<open>Some e\<close>: the
  context was done, with error text \<open>e\<close>), and the rounding and overflow behaviour of floats.
\<close>

record 's retry_env =
  ctx_err :: "'s \<Rightarrow> go_error option"
  rand_float :: "'s \<Rightarrow> real \<times> 's"
  wait_backoff :: "int \<Rightarrow> 's \<Rightarrow> go_error option \<times> 's"
  round64 :: "real \<Rightarrow> real"
  overflow64 :: "real \<Rightarrow> int"

type_synonym 's retryable_func = "'s \<Rightarrow> go_error option \<times> 's"

definition DefaultIsRetryable :: "go_error \<Rightarrow> bool" where
  "DefaultIsRetryable err = True"

text \<open>The pause after a failed attempt number \<open>attempt\<close> (from 0), given the random number.\<close>

definition backoff_duration :: "(real \<Rightarrow> real) \<Rightarrow> (real \<Rightarrow> int) \<Rightarrow> retry_config \<Rightarrow> nat \<Rightarrow> real \<Rightarrow> int" where
  "backoff_duration fl ovf cfg attempt r =
     (let backoff = fl (fl (real_of_int (InitialBackoff cfg)) * 2 ^ attempt);
          jitter = fl (fl (r * (1 / 2)) * backoff);
          nextBackoff = float_to_int64 ovf (fl (backoff + jitter))
      in if nextBackoff > MaxBackoff cfg then MaxBackoff cfg else nextBackoff)"

definition next_backoff :: "'s retry_env \<Rightarrow> retry_config \<Rightarrow> nat \<Rightarrow> 's \<Rightarrow> int \<times> 's" where
  "next_backoff env cfg attempt s =
     (if attempt = 0 then (InitialBackoff cfg, s)
      else (case rand_float env s of
              (r, s') \<Rightarrow> (backoff_duration (round64 env) (overflow64 env) cfg attempt r, s')))"

function retry_loop ::
  "'s retry_env \<Rightarrow> retry_config \<Rightarrow> 's retryable_func \<Rightarrow> (go_error \<Rightarrow> bool) option \<Rightarrow>
   nat \<Rightarrow> go_error option \<Rightarrow> 's \<Rightarrow> go_error option \<times> 's" where
  "retry_loop env cfg fn isRetryable attempt err s =
     (if int attempt < MaxAttempts cfg then
        (case fn s of
           (None, s1) \<Rightarrow> (None, s1)
         | (Some e, s1) \<Rightarrow>
             (if (case isRetryable of None \<Rightarrow> False | Some p \<Rightarrow> \<not> p e) then (Some e, s1)
              else (case ctx_err env s1 of
                      Some c \<Rightarrow> (Some (''operation cancelled: '' @ c), s1)
                    | None \<Rightarrow>
                        (case next_backoff env cfg attempt s1 of
                           (d, s2) \<Rightarrow>
                             (case wait_backoff env d s2 of
                                (Some c, s3) \<Rightarrow> (Some (''operation cancelled: '' @ c), s3)
                              | (None, s3) \<Rightarrow>
                                  retry_loop env cfg fn isRetryable (Suc attempt) (Some e) s3)))))
      else (err, s))"
  by pat_completeness auto
termination
  by (relation "measure (\<lambda>(env, cfg, fn, p, attempt, err, s). nat (MaxAttempts cfg) - attempt)") auto

declare retry_loop.simps [simp del]

lemma retry_loop_done: "MaxAttempts cfg \<le> int attempt \<Longrightarrow> retry_loop env cfg fn p attempt err s = (err, s)"
  by (subst retry_loop.simps) simp

lemma retry_loop_step:
  assumes "int attempt < MaxAttempts cfg"
    and "fn s = (r1, s1)" and "next_backoff env cfg attempt s1 = (d, s2)"
    and "wait_backoff env d s2 = (r3, s3)"
  shows "retry_loop env cfg fn p attempt err s =
    (case r1 of
       None \<Rightarrow> (None, s1)
     | Some e \<Rightarrow>
         if p \<noteq> None \<and> \<not> the p e then (Some e, s1)
         else case ctx_err env s1 of
                Some c \<Rightarrow> (Some (''operation cancelled: '' @ c), s1)
              | None \<Rightarrow>
                  (case r3 of
                     Some c \<Rightarrow> (Some (''operation cancelled: '' @ c), s3)
                   | None \<Rightarrow> retry_loop env cfg fn p (Suc attempt) (Some e) s3))"
  using assms by (subst retry_loop.simps) (auto split: option.splits)

definition RetryWithBackoff ::
  "'s retry_env \<Rightarrow> retry_config \<Rightarrow> 's retryable_func \<Rightarrow> (go_error \<Rightarrow> bool) option \<Rightarrow> 's \<Rightarrow> go_error option \<times> 's" where
  "RetryWithBackoff env cfg fn isRetryable s = retry_loop env cfg fn isRetryable 0 None s"

section \<open>The retryable function as an interface\<close>

text \<open>
  What a caller has to know of the function it retries: an invariant \<open>I\<close> that every attempt keeps,
  failed or not, and that drawing a random number and pausing keep; and what a successful attempt
  achieves (\<open>G\<close>). Then a run of the loop keeps the invariant, and a run that returns \<^verbatim>\<open>nil\<close> (with at
  least one attempt allowed) has achieved \<open>G\<close>.
\<close>

locale retryable =
  fixes fn :: "'s \<Rightarrow> go_error option \<times> 's"
    and env :: "'s retry_env"
    and I :: "'s \<Rightarrow> bool"
    and G :: "'s \<Rightarrow> bool"
  assumes attempt_inv: "I s \<Longrightarrow> I (snd (fn s))"
    and attempt_goal: "I s \<Longrightarrow> fn s = (None, s') \<Longrightarrow> G s'"
    and rand_inv: "I s \<Longrightarrow> I (snd (rand_float env s))"
    and wait_inv: "I s \<Longrightarrow> I (snd (wait_backoff env d s))"
begin

lemma next_backoff_inv: "I s \<Longrightarrow> I (snd (next_backoff env cfg attempt s))"
  using rand_inv by (auto simp: next_backoff_def split: prod.splits) (metis snd_conv)

lemma retry_loop_result:
  assumes "I s"
  shows "I (snd (retry_loop env cfg fn p attempt err s)) \<and>
    (fst (retry_loop env cfg fn p attempt err s) = None \<longrightarrow>
      G (snd (retry_loop env cfg fn p attempt err s)) \<or> err = None \<and> MaxAttempts cfg \<le> int attempt)"
  using assms
proof (induction "nat (MaxAttempts cfg) - attempt" arbitrary: attempt err s)
  case 0
  then show ?case by (auto simp: retry_loop_done nat_le_iff)
next
  case (Suc n)
  obtain r1 s1 where f: "fn s = (r1, s1)" by fastforce
  have I1: "I s1" using attempt_inv [OF Suc.prems] f by simp
  obtain d s2 where b: "next_backoff env cfg attempt s1 = (d, s2)" by fastforce
  have I2: "I s2" using next_backoff_inv [OF I1] b by (metis snd_conv)
  obtain r3 s3 where w: "wait_backoff env d s2 = (r3, s3)" by fastforce
  have I3: "I s3" using wait_inv [OF I2] w by (metis snd_conv)
  have "int attempt < MaxAttempts cfg" using Suc.hyps(2) by simp
  note step = retry_loop_step [of attempt cfg fn s r1 s1 env d s2 r3 s3 p err, OF this f b w]
  have "n = nat (MaxAttempts cfg) - Suc attempt" using Suc.hyps(2) by simp
  note rec = Suc.hyps(1) [OF this I3, of "Some e" for e]
  show ?case
    using rec I1 I3 attempt_goal [OF Suc.prems] f by (auto simp: step split: option.splits)
qed

lemmas retry_inv = retry_loop_result [THEN conjunct1]

lemma RetryWithBackoff_inv: "I s \<Longrightarrow> RetryWithBackoff env cfg fn p s = (r, s') \<Longrightarrow> I s'"
  using retry_loop_result [of s cfg p 0 None] by (simp add: RetryWithBackoff_def)

lemma RetryWithBackoff_goal:
  "I s \<Longrightarrow> 0 < MaxAttempts cfg \<Longrightarrow> RetryWithBackoff env cfg fn p s = (None, s') \<Longrightarrow> G s'"
  using retry_loop_result [of s cfg p 0 None] by (simp add: RetryWithBackoff_def)

end

text \<open>
  When moreover every failed attempt uses up some of a finite amount of trouble, and the context stays
  live, the loop outlasts the trouble: with more attempts than trouble it returns \<^verbatim>\<open>nil\<close>.
\<close>

locale retryable_transient = retryable fn env I G
  for fn :: "'s \<Rightarrow> go_error option \<times> 's" and env :: "'s retry_env"
    and I :: "'s \<Rightarrow> bool" and G :: "'s \<Rightarrow> bool" +
  fixes trouble :: "'s \<Rightarrow> nat"
  assumes attempt_trouble: "I s \<Longrightarrow> trouble (snd (fn s)) \<le> trouble s"
    and failure_trouble: "I s \<Longrightarrow> fn s = (Some e, s') \<Longrightarrow> trouble s' < trouble s"
    and ctx_live: "I s \<Longrightarrow> ctx_err env s = None"
    and rand_trouble: "I s \<Longrightarrow> trouble (snd (rand_float env s)) \<le> trouble s"
    and wait_trouble: "I s \<Longrightarrow> trouble (snd (wait_backoff env d s)) \<le> trouble s"
    and wait_live: "I s \<Longrightarrow> fst (wait_backoff env d s) = None"
begin

lemma next_backoff_trouble: "I s \<Longrightarrow> trouble (snd (next_backoff env cfg attempt s)) \<le> trouble s"
  using rand_trouble by (auto simp: next_backoff_def split: prod.splits) (metis snd_conv)

lemma retry_loop_outlasts:
  assumes "I s" and "int attempt + int (trouble s) < MaxAttempts cfg" and p: "\<forall>q. p = Some q \<longrightarrow> (\<forall>e. q e)"
  shows "fst (retry_loop env cfg fn p attempt err s) = None \<and>
    trouble (snd (retry_loop env cfg fn p attempt err s)) \<le> trouble s"
  using assms(1,2)
proof (induction "trouble s" arbitrary: attempt err s rule: less_induct)
  case less
  obtain r1 s1 where f: "fn s = (r1, s1)" by fastforce
  have I1: "I s1" and t1: "trouble s1 \<le> trouble s"
    using attempt_inv [OF less.prems(1)] attempt_trouble [OF less.prems(1)] f by simp_all
  obtain d s2 where b: "next_backoff env cfg attempt s1 = (d, s2)" by fastforce
  have I2: "I s2" and t2: "trouble s2 \<le> trouble s1"
    using next_backoff_inv [OF I1, of cfg attempt] next_backoff_trouble [OF I1, of cfg attempt] b by simp_all
  obtain r3 s3 where w: "wait_backoff env d s2 = (r3, s3)" by fastforce
  have I3: "I s3" and t3: "trouble s3 \<le> trouble s2" and r3: "r3 = None"
    using wait_inv [OF I2, of d] wait_trouble [OF I2, of d] wait_live [OF I2, of d] w by simp_all
  have "int attempt < MaxAttempts cfg" using less.prems(2) by simp
  note step = retry_loop_step [of attempt cfg fn s r1 s1 env d s2 r3 s3 p err, OF this f b w]
  show ?case
  proof (cases r1)
    case None
    then show ?thesis using step t1 by simp
  next
    case (Some e)
    have "trouble s3 < trouble s" using failure_trouble [OF less.prems(1)] f Some t2 t3 by fastforce
    then show ?thesis
      using less.hyps [OF _ I3, of "Suc attempt" "Some e"] less.prems(2) step Some r3 ctx_live [OF I1] p by (cases p) auto
  qed
qed

lemma RetryWithBackoff_outlasts:
  assumes "I s" and "int (trouble s) < MaxAttempts cfg" and "\<forall>q. p = Some q \<longrightarrow> (\<forall>e. q e)"
    and "RetryWithBackoff env cfg fn p s = (r, s')"
  shows "r = None" and "trouble s' \<le> trouble s" and "G s'"
  using retry_loop_outlasts [of s 0 cfg p None] RetryWithBackoff_goal [of s cfg p s'] assms
  by (auto simp: RetryWithBackoff_def)

end

text \<open>Two functions that agree where an invariant of the first holds are retried alike.\<close>

lemma retry_loop_cong:
  assumes "I s" and agree: "\<And>s. I s \<Longrightarrow> fn' s = fn s" and keep: "\<And>s. I s \<Longrightarrow> I (snd (fn s))"
    and rand: "\<And>s. I s \<Longrightarrow> I (snd (rand_float env s))"
    and wait: "\<And>d s. I s \<Longrightarrow> I (snd (wait_backoff env d s))"
  shows "retry_loop env cfg fn' p attempt err s = retry_loop env cfg fn p attempt err s"
  using assms(1)
proof (induction "nat (MaxAttempts cfg) - attempt" arbitrary: attempt err s)
  case 0
  then show ?case by (simp add: retry_loop_done nat_le_iff)
next
  case (Suc n)
  obtain r1 s1 where f: "fn s = (r1, s1)" by fastforce
  have f': "fn' s = (r1, s1)" using agree [OF Suc.prems] f by simp
  obtain d s2 where b: "next_backoff env cfg attempt s1 = (d, s2)" by fastforce
  obtain r3 s3 where w: "wait_backoff env d s2 = (r3, s3)" by fastforce
  have I1: "I s1" using keep [OF Suc.prems] f by simp
  then have "I s2" using b rand [OF I1] by (auto simp: next_backoff_def split: if_splits prod.splits)
  then have I3: "I s3" using wait w by (metis snd_conv)
  have lt: "int attempt < MaxAttempts cfg" and n: "n = nat (MaxAttempts cfg) - Suc attempt"
    using Suc.hyps(2) by simp_all
  have "retry_loop env cfg fn' p (Suc attempt) (Some e) s3 = retry_loop env cfg fn p (Suc attempt) (Some e) s3"
    for e by (rule Suc.hyps(1) [OF n I3])
  then show ?case
    using retry_loop_step [of attempt cfg fn s r1 s1 env d s2 r3 s3 p err]
      retry_loop_step [of attempt cfg fn' s r1 s1 env d s2 r3 s3 p err] f f' b w lt
    by (cases p; cases r1; cases "ctx_err env s1"; cases r3) simp_all
qed

section \<open>What a run does\<close>

text \<open>
  One round of the loop that does not end it: an attempt (that failed) and the pause after it. The
  state in which attempt number \<open>k\<close> starts is the state after \<open>k\<close> rounds.
\<close>

definition retry_round :: "'s retry_env \<Rightarrow> retry_config \<Rightarrow> 's retryable_func \<Rightarrow> nat \<Rightarrow> 's \<Rightarrow> 's" where
  "retry_round env cfg fn attempt s =
     (case next_backoff env cfg attempt (snd (fn s)) of (d, s2) \<Rightarrow> snd (wait_backoff env d s2))"

definition attempt_state :: "'s retry_env \<Rightarrow> retry_config \<Rightarrow> 's retryable_func \<Rightarrow> 's \<Rightarrow> nat \<Rightarrow> 's" where
  "attempt_state env cfg fn s k = fold (retry_round env cfg fn) [0..<k] s"

lemma attempt_state_0 [simp]: "attempt_state env cfg fn s 0 = s"
  by (simp add: attempt_state_def)

lemma attempt_state_Suc:
  "attempt_state env cfg fn s (Suc k) = retry_round env cfg fn k (attempt_state env cfg fn s k)"
  by (simp add: attempt_state_def)

lemma retry_loop_runs:
  assumes "retry_loop env cfg fn p a err (attempt_state env cfg fn s a) = (r, s')"
  shows "\<exists>k. (\<forall>j. a \<le> j \<and> j < k \<longrightarrow> fst (fn (attempt_state env cfg fn s j)) \<noteq> None) \<and> a \<le> k \<and>
    (nat (MaxAttempts cfg) \<le> k \<and> (k = a \<or> k = nat (MaxAttempts cfg)) \<and> s' = attempt_state env cfg fn s k \<and>
       r = (if k = a then err else fst (fn (attempt_state env cfg fn s (k - 1))))
     \<or> k < nat (MaxAttempts cfg) \<and> fn (attempt_state env cfg fn s k) = (r, s') \<and>
       (r = None \<or> (\<exists>q e. p = Some q \<and> r = Some e \<and> \<not> q e))
     \<or> k < nat (MaxAttempts cfg) \<and> fst (fn (attempt_state env cfg fn s k)) \<noteq> None \<and>
       (\<exists>c. r = Some (''operation cancelled: '' @ c)))"
  using assms
proof (induction "nat (MaxAttempts cfg) - a" arbitrary: a err)
  case 0
  then show ?case by (intro exI [of _ a]) (auto simp: retry_loop_done nat_le_iff)
next
  case (Suc n)
  let ?sa = "attempt_state env cfg fn s a"
  obtain r1 s1 where f: "fn ?sa = (r1, s1)" by fastforce
  obtain d s2 where b: "next_backoff env cfg a s1 = (d, s2)" by fastforce
  obtain r3 s3 where w: "wait_backoff env d s2 = (r3, s3)" by fastforce
  have s3: "s3 = attempt_state env cfg fn s (Suc a)"
    using f b w by (simp add: attempt_state_Suc retry_round_def)
  have lt: "int a < MaxAttempts cfg" using Suc.hyps(2) by simp
  note step = retry_loop_step [of a cfg fn ?sa r1 s1 env d s2 r3 s3 p err, OF lt f b w]
  show ?case
  proof (cases "\<exists>e. r1 = Some e \<and> (p = None \<or> the p e) \<and> ctx_err env s1 = None \<and> r3 = None")
    case False
    then show ?thesis
      using Suc.prems f lt unfolding step
      by (intro exI [of _ a]) (auto split: option.splits if_splits)
  next
    case True
    then obtain e where e: "r1 = Some e" and
      rec: "retry_loop env cfg fn p (Suc a) (Some e) (attempt_state env cfg fn s (Suc a)) = (r, s')"
      using Suc.prems by (auto simp: step s3)
    have "n = nat (MaxAttempts cfg) - Suc a" using Suc.hyps(2) by simp
    from Suc.hyps(1) [OF this rec] obtain k where k:
      "\<forall>j. Suc a \<le> j \<and> j < k \<longrightarrow> fst (fn (attempt_state env cfg fn s j)) \<noteq> None" "Suc a \<le> k"
      "nat (MaxAttempts cfg) \<le> k \<and> (k = Suc a \<or> k = nat (MaxAttempts cfg)) \<and> s' = attempt_state env cfg fn s k \<and>
         r = (if k = Suc a then Some e else fst (fn (attempt_state env cfg fn s (k - 1))))
       \<or> k < nat (MaxAttempts cfg) \<and> fn (attempt_state env cfg fn s k) = (r, s') \<and>
         (r = None \<or> (\<exists>q e. p = Some q \<and> r = Some e \<and> \<not> q e))
       \<or> k < nat (MaxAttempts cfg) \<and> fst (fn (attempt_state env cfg fn s k)) \<noteq> None \<and>
         (\<exists>c. r = Some (''operation cancelled: '' @ c))" by auto
    moreover have "\<forall>j. a \<le> j \<and> j < k \<longrightarrow> fst (fn (attempt_state env cfg fn s j)) \<noteq> None"
      using k(1) e f by (metis Suc_leI fst_conv option.distinct(1) order_le_less)
    moreover have "k = Suc a \<longrightarrow> fst (fn (attempt_state env cfg fn s (k - 1))) = Some e"
      using e f by simp
    moreover have "nat (MaxAttempts cfg) \<le> Suc a \<longrightarrow> nat (MaxAttempts cfg) = Suc a"
      using lt by arith
    ultimately show ?thesis by (intro exI [of _ k]) auto
  qed
qed

section \<open>The length of the pauses\<close>

lemma trunc_real_bounds:
  assumes "0 \<le> lo" and "real_of_int lo \<le> x" and "x \<le> real_of_int hi"
  shows "lo \<le> trunc_real x \<and> trunc_real x \<le> hi"
proof -
  have "0 \<le> x" using assms(1,2) by linarith
  then have "trunc_real x = \<lfloor>x\<rfloor>" by (simp add: trunc_real_def)
  moreover have "lo \<le> \<lfloor>x\<rfloor>" using assms(2) by (simp add: le_floor_iff)
  moreover have "\<lfloor>x\<rfloor> \<le> hi" using assms(3) by linarith
  ultimately show ?thesis by simp
qed

lemma jittered_sum:
  assumes fl: "float64_rounding fl" and "0 \<le> m" and "m \<le> 2 ^ 51" and "0 \<le> r" and "r < 1" and "k < 900"
  defines "b \<equiv> fl (fl (real_of_int m) * 2 ^ Suc k)"
  shows "real_of_int (m * 2 ^ Suc k) \<le> fl (b + fl (fl (r * (1 / 2)) * b)) \<and>
    fl (b + fl (fl (r * (1 / 2)) * b)) \<le> real_of_int (3 * m * 2 ^ k)"
proof -
  have exact: "fl (real_of_int n * 2 ^ j) = real_of_int n * 2 ^ j" if "0 \<le> n" "n \<le> 3 * m" "j \<le> 900" for n j
    using float64_scaled [OF fl, of n j] that assms(3) by simp
  have b: "b = real_of_int m * 2 ^ Suc k"
    using exact [of m 0] exact [of m "Suc k"] assms(2,6) by (simp add: b_def)
  have "fl (1 / 2) = 1 / 2" using float64_quotient [OF fl, of 1 1] by simp
  then have h: "fl (r * (1 / 2)) \<le> 1 / 2" using float64_le [OF fl, of "r * (1 / 2)" "1 / 2"] assms(5) by simp
  have z: "fl 0 = 0" using float64_int [OF fl, of 0] by simp
  have h0: "0 \<le> fl (r * (1 / 2))" using float64_ge [OF fl _ z, of "r * (1 / 2)"] assms(4) by simp
  have b0: "0 \<le> b" using assms(2) by (simp add: b)
  have half: "fl (r * (1 / 2)) * b \<le> real_of_int m * 2 ^ k"
    using mult_right_mono [OF h b0] by (simp add: b)
  have j: "fl (fl (r * (1 / 2)) * b) \<le> real_of_int m * 2 ^ k"
    using float64_le [OF fl half] exact [of m k] assms(2,6) by simp
  have j0: "0 \<le> fl (fl (r * (1 / 2)) * b)"
    using float64_ge [OF fl _ z, of "fl (r * (1 / 2)) * b"] h0 b0 by simp
  have up: "b + fl (fl (r * (1 / 2)) * b) \<le> real_of_int (3 * m) * 2 ^ k"
    using j by (simp add: b algebra_simps)
  have lo: "real_of_int m * 2 ^ Suc k \<le> b + fl (fl (r * (1 / 2)) * b)" using j0 by (simp add: b)
  show ?thesis
    using float64_le [OF fl up exact] float64_ge [OF fl lo exact] assms(2,6) by simp
qed

lemma backoff_duration_bounds:
  assumes "float64_rounding fl" and "0 \<le> InitialBackoff cfg" and "InitialBackoff cfg \<le> 2 ^ 51"
    and "0 \<le> r" and "r < 1" and "k < 900" and "3 * InitialBackoff cfg * 2 ^ k < 2 ^ 63"
  shows "min (MaxBackoff cfg) (InitialBackoff cfg * 2 ^ Suc k) \<le> backoff_duration fl ovf cfg (Suc k) r \<and>
    backoff_duration fl ovf cfg (Suc k) r \<le> min (MaxBackoff cfg) (3 * InitialBackoff cfg * 2 ^ k)"
proof -
  define b where "b = fl (fl (real_of_int (InitialBackoff cfg)) * 2 ^ Suc k)"
  define x where "x = fl (b + fl (fl (r * (1 / 2)) * b))"
  have "InitialBackoff cfg * 2 ^ Suc k \<le> trunc_real x \<and> trunc_real x \<le> 3 * InitialBackoff cfg * 2 ^ k"
    using trunc_real_bounds [of "InitialBackoff cfg * 2 ^ Suc k" x "3 * InitialBackoff cfg * 2 ^ k"]
      jittered_sum [OF assms(1-6)] assms(2) by (simp add: x_def b_def)
  moreover have "0 \<le> InitialBackoff cfg * 2 ^ Suc k" using assms(2) by simp
  ultimately have "float_to_int64 ovf x = trunc_real x"
    using assms(7) by (simp add: float_to_int64_def int64_range_def)
  then have "backoff_duration fl ovf cfg (Suc k) r = min (MaxBackoff cfg) (trunc_real x)"
    by (auto simp: backoff_duration_def Let_def x_def b_def)
  with \<open>_ \<and> _\<close> show ?thesis by auto
qed

section \<open>Properties\<close>

text \<open>
  A runtime for the witnesses: the state counts the attempts; the context is never done; exact
  arithmetic; a conversion that overflows gives the smallest 64-bit integer, as on amd64.
\<close>

definition demo_retry_env :: "nat retry_env" where
  "demo_retry_env =
     \<lparr>ctx_err = (\<lambda>_. None), rand_float = (\<lambda>s. (1 / 4, s)), wait_backoff = (\<lambda>_ s. (None, s)),
      round64 = (\<lambda>x. x), overflow64 = (\<lambda>_. - (2 ^ 63))\<rparr>"

definition demo_fn :: "nat \<Rightarrow> nat retryable_func" where
  "demo_fn n s = (if s < n then (Some ''temporary'', Suc s) else (None, s))"

definition demo_retry_cfg :: retry_config where
  "demo_retry_cfg = \<lparr>MaxAttempts = 3, InitialBackoff = 10, MaxBackoff = 40\<rparr>"

lemma demo_attempt_state: "k \<le> n \<Longrightarrow> attempt_state demo_retry_env cfg (demo_fn n) 0 k = k"
  by (induction k)
    (auto simp: attempt_state_Suc retry_round_def next_backoff_def demo_retry_env_def demo_fn_def)

lemma demo_run: "RetryWithBackoff demo_retry_env demo_retry_cfg (demo_fn 2) (Some DefaultIsRetryable) 0 = (None, 2)"
  by (simp add: RetryWithBackoff_def retry_loop.simps demo_fn_def demo_retry_env_def demo_retry_cfg_def
      next_backoff_def DefaultIsRetryable_def)



text \<open>
  C28. When every attempt fails with an error that may be retried and the context stays live,
  \<^verbatim>\<open>RetryWithBackoff\<close> makes exactly \<^verbatim>\<open>MaxAttempts\<close> attempts, each followed by its pause, the last one
  included, and returns the error of the last attempt.
\<close>

theorem RetryWithBackoff_exhausted:
  assumes "0 < MaxAttempts cfg"
    and fails: "\<And>j. j < nat (MaxAttempts cfg) \<Longrightarrow>
      \<exists>e s1 d s2 s3. fn (attempt_state env cfg fn s j) = (Some e, s1) \<and> (p = None \<or> the p e) \<and>
        ctx_err env s1 = None \<and> next_backoff env cfg j s1 = (d, s2) \<and> wait_backoff env d s2 = (None, s3)"
  shows "RetryWithBackoff env cfg fn p s =
    (fst (fn (attempt_state env cfg fn s (nat (MaxAttempts cfg) - 1))),
     attempt_state env cfg fn s (nat (MaxAttempts cfg)))"
proof -
  have "a < nat (MaxAttempts cfg) \<Longrightarrow>
    retry_loop env cfg fn p a err (attempt_state env cfg fn s a) =
      (fst (fn (attempt_state env cfg fn s (nat (MaxAttempts cfg) - 1))),
       attempt_state env cfg fn s (nat (MaxAttempts cfg)))" for a err
  proof (induction "nat (MaxAttempts cfg) - a" arbitrary: a err)
    case (Suc n)
    let ?sa = "attempt_state env cfg fn s a"
    obtain e s1 d s2 s3 where f: "fn ?sa = (Some e, s1)" and p: "p = None \<or> the p e"
      and c: "ctx_err env s1 = None" and b: "next_backoff env cfg a s1 = (d, s2)"
      and w: "wait_backoff env d s2 = (None, s3)"
      using fails [OF Suc.prems] by blast
    have "retry_loop env cfg fn p a err ?sa = retry_loop env cfg fn p (Suc a) (Some e) s3"
      using retry_loop_step [of a cfg fn ?sa "Some e" s1 env d s2 None s3 p err] f b w Suc.prems p c
      by auto
    moreover have "s3 = attempt_state env cfg fn s (Suc a)"
      using f b w by (simp add: attempt_state_Suc retry_round_def)
    ultimately have eq: "retry_loop env cfg fn p a err ?sa =
      retry_loop env cfg fn p (Suc a) (Some e) (attempt_state env cfg fn s (Suc a))" by simp
    show ?case
    proof (cases "Suc a < nat (MaxAttempts cfg)")
      case True
      then show ?thesis using Suc.hyps(1) [of "Suc a" "Some e"] Suc.hyps(2) eq by simp
    next
      case False
      then have "nat (MaxAttempts cfg) = Suc a" using Suc.prems by simp
      then show ?thesis using eq f by (simp add: retry_loop_done)
    qed
  qed simp
  from this [of 0 None] show ?thesis using assms(1) by (simp add: RetryWithBackoff_def)
qed

theorem RetryWithBackoff_exhausted_witness:
  "RetryWithBackoff demo_retry_env demo_retry_cfg (demo_fn 9) (Some DefaultIsRetryable) 0 = (Some ''temporary'', 3)"
proof -
  have "RetryWithBackoff demo_retry_env demo_retry_cfg (demo_fn 9) (Some DefaultIsRetryable) 0 =
    (fst (demo_fn 9 (attempt_state demo_retry_env demo_retry_cfg (demo_fn 9) 0 (nat (MaxAttempts demo_retry_cfg) - 1))),
     attempt_state demo_retry_env demo_retry_cfg (demo_fn 9) 0 (nat (MaxAttempts demo_retry_cfg)))"
    by (rule RetryWithBackoff_exhausted)
      (auto simp: demo_attempt_state demo_fn_def demo_retry_env_def [symmetric] demo_retry_cfg_def DefaultIsRetryable_def,
       simp_all add: demo_retry_env_def next_backoff_def)
  then show ?thesis by (simp add: demo_retry_cfg_def demo_attempt_state) (simp add: demo_fn_def)
qed

text \<open>
  C29. As long as nothing overflows, the pause after attempt \<open>k + 1\<close> (counted from 0, so the first retry
  is \<open>k = 0\<close>) lies between \<open>2\<close> and \<open>3\<close> times \<open>2 ^ k\<close> times the initial backoff, cut off at
  \<^verbatim>\<open>MaxBackoff\<close>: doubling with up to half of it as jitter, for any IEEE rounding.
\<close>

theorem backoff_doubles_with_jitter:
  assumes "float64_rounding fl" and "0 \<le> InitialBackoff cfg" and "InitialBackoff cfg \<le> 2 ^ 51"
    and "0 \<le> r" and "r < 1" and "k < 900" and "3 * InitialBackoff cfg * 2 ^ k < 2 ^ 63"
  shows "min (MaxBackoff cfg) (2 * 2 ^ k * InitialBackoff cfg) \<le> backoff_duration fl ovf cfg (Suc k) r \<and>
    backoff_duration fl ovf cfg (Suc k) r \<le> min (MaxBackoff cfg) (3 * 2 ^ k * InitialBackoff cfg)"
  using backoff_duration_bounds [OF assms] by (simp add: mult.commute mult.left_commute)

theorem backoff_doubles_with_jitter_witness:
  "20 \<le> backoff_duration (\<lambda>x. x) (\<lambda>_. 0) demo_retry_cfg 1 (1 / 4) \<and>
   backoff_duration (\<lambda>x. x) (\<lambda>_. 0) demo_retry_cfg 1 (1 / 4) \<le> 30"
  using backoff_doubles_with_jitter [OF float64_rounding_id, of demo_retry_cfg "1 / 4" 0 "\<lambda>_. 0"]
  by (simp add: demo_retry_cfg_def)

text \<open>
  With \<^verbatim>\<open>maxBackoff: 0\<close>, which \<^verbatim>\<open>Validate\<close> accepts together with any initial backoff, no retry
  after the first ever pauses: the cap is applied although it is 0.
\<close>

theorem zero_max_backoff_never_pauses:
  assumes "MaxBackoff cfg = 0"
  shows "backoff_duration fl ovf cfg attempt r \<le> 0"
  using assms by (simp add: backoff_duration_def Let_def)

theorem zero_max_backoff_never_pauses_witness:
  "valid_retry \<lparr>MaxAttempts = 3, InitialBackoff = 10, MaxBackoff = 0\<rparr> \<and>
   backoff_duration (\<lambda>x. x) (\<lambda>_. 0) \<lparr>MaxAttempts = 3, InitialBackoff = 10, MaxBackoff = 0\<rparr> 1 (1 / 4) \<le> 0"
  using zero_max_backoff_never_pauses [of "\<lparr>MaxAttempts = 3, InitialBackoff = 10, MaxBackoff = 0\<rparr>" "\<lambda>x. x" "\<lambda>_. 0" 1 "1 / 4"]
  by (simp add: valid_retry_def)

text \<open>
  The cap does not hold for late attempts on every platform: with the default durations the pause
  after attempt 34 (from 0) is whatever the conversion makes of a number beyond 64 bits. Where that is
  the smallest integer (amd64), the pause is negative, so the loop retries without pausing.
\<close>

theorem late_backoff_overflows:
  assumes "0 \<le> r"
  shows "backoff_duration (\<lambda>x. x) (\<lambda>_. - (2 ^ 63)) (Retry DefaultConfig) 34 r = - (2 ^ 63)"
proof -
  define x :: real where "x = 1000000000 * 2 ^ 34 + r * (1 / 2) * (1000000000 * 2 ^ 34)"
  have "(2 :: real) ^ 63 \<le> x" using assms by (simp add: x_def add_increasing2)
  then have "2 ^ 63 \<le> trunc_real x" by (simp add: trunc_real_def le_floor_iff)
  then have "float_to_int64 (\<lambda>_. - (2 ^ 63)) x = - (2 ^ 63)"
    by (simp add: float_to_int64_def int64_range_def)
  then show ?thesis
    by (simp add: backoff_duration_def Let_def DefaultConfig_def time_Second_def x_def)
qed

theorem late_backoff_overflows_witness:
  "backoff_duration (\<lambda>x. x) (\<lambda>_. - (2 ^ 63)) (Retry DefaultConfig) 34 (1 / 4) < 0"
  using late_backoff_overflows [of "1 / 4"] by simp

end
