(* ===== verification/Reliability.thy ===== *)
theory Reliability
  imports Retry
begin

text \<open>
  \<^verbatim>\<open>pkg/kubernetes/reliability.go\<close>: the tracker behind the leader-election monitor, a retry counter for
  the backoff and a circuit breaker over a sliding window of failures. Times are nanoseconds; every
  operation that reads the clock takes the reading as its argument \<open>now\<close>. The goroutine that exits
  the process is recorded in \<open>exit_at\<close>: the times at which \<^verbatim>\<open>exitFunc(1)\<close> is due.
\<close>

definition MinBackoffSeconds :: int where "MinBackoffSeconds = 1"
definition MaxBackoffSeconds :: int where "MaxBackoffSeconds = 30"
definition CircuitBreakerFailureThreshold :: nat where "CircuitBreakerFailureThreshold = 10"
definition CircuitBreakerWindowDuration :: int where "CircuitBreakerWindowDuration = 300 * time_Second"
definition CircuitBreakerCooldownPeriod :: int where "CircuitBreakerCooldownPeriod = 60 * time_Second"
definition exitDelay :: int where "exitDelay = 500000000"

datatype circuit_state = CircuitClosed | CircuitOpen | CircuitHalfOpen

record tracker =
  retryCount :: nat
  lastRetryTime :: int
  circuit :: circuit_state
  failures :: "int list"
  trippedAt :: int
  exit_at :: "int list"

definition NewReliabilityTracker :: "int \<Rightarrow> tracker" where
  "NewReliabilityTracker now =
     \<lparr>retryCount = 0, lastRetryTime = now, circuit = CircuitClosed, failures = [], trippedAt = 0, exit_at = []\<rparr>"

definition RecordFailure :: "int \<Rightarrow> tracker \<Rightarrow> tracker" where
  "RecordFailure now r =
     (let r1 = (if circuit r = CircuitClosed then r\<lparr>retryCount := Suc (retryCount r)\<rparr> else r);
          cutoff = now - CircuitBreakerWindowDuration;
          r2 = r1\<lparr>failures := filter (\<lambda>t. t > cutoff) (failures r1 @ [now])\<rparr>
      in if circuit r2 = CircuitClosed \<and> length (failures r2) \<ge> CircuitBreakerFailureThreshold
         then r2\<lparr>circuit := CircuitOpen, trippedAt := now, exit_at := exit_at r2 @ [now + exitDelay]\<rparr>
         else r2)"

definition RecordSuccess :: "tracker \<Rightarrow> tracker" where
  "RecordSuccess r =
     (let r1 = r\<lparr>retryCount := 0\<rparr>
      in if circuit r1 = CircuitHalfOpen then r1\<lparr>circuit := CircuitClosed, failures := []\<rparr> else r1)"

definition IsCircuitOpen :: "int \<Rightarrow> tracker \<Rightarrow> bool \<times> tracker" where
  "IsCircuitOpen now r =
     (let r1 = (if circuit r = CircuitOpen \<and> now - trippedAt r > CircuitBreakerCooldownPeriod
                then r\<lparr>circuit := CircuitHalfOpen\<rparr> else r)
      in (circuit r1 = CircuitOpen, r1))"

text \<open>
  \<^verbatim>\<open>GetBackoffDuration\<close>, given the random number, with every \<^verbatim>\<open>float64\<close> operation rounded by \<open>fl\<close>.
\<close>

definition GetBackoffDuration :: "(real \<Rightarrow> real) \<Rightarrow> (real \<Rightarrow> int) \<Rightarrow> real \<Rightarrow> tracker \<Rightarrow> int" where
  "GetBackoffDuration fl ovf rand r =
     (let s0 = fl (real_of_int MinBackoffSeconds * fl (2 ^ retryCount r));
          seconds = (if s0 > real_of_int MaxBackoffSeconds then real_of_int MaxBackoffSeconds else s0);
          jitterAmount = fl (1 + fl (fl (fl (rand * 2) * fl (1 / 5)) - fl (1 / 5)));
          finalSeconds = fl (seconds * jitterAmount)
      in float_to_int64 ovf (fl (finalSeconds * real_of_int time_Second)))"

lemmas tracker_consts = CircuitBreakerFailureThreshold_def CircuitBreakerWindowDuration_def
  CircuitBreakerCooldownPeriod_def exitDelay_def time_Second_def

section \<open>Runs of the tracker\<close>

text \<open>
  The operations as steps, each at a clock reading that is not before the previous one. The state of
  a run is the tracker with the last reading.
\<close>

inductive tracker_step :: "int \<times> tracker \<Rightarrow> int \<times> tracker \<Rightarrow> bool" where
  step_failure: "now \<le> now' \<Longrightarrow> tracker_step (now, r) (now', RecordFailure now' r)"
| step_success: "now \<le> now' \<Longrightarrow> tracker_step (now, r) (now', RecordSuccess r)"
| step_check: "now \<le> now' \<Longrightarrow> tracker_step (now, r) (now', snd (IsCircuitOpen now' r))"

inductive tracker_reachable :: "int \<times> tracker \<Rightarrow> bool" where
  reach_new: "tracker_reachable (now, NewReliabilityTracker now)"
| reach_step: "tracker_reachable s \<Longrightarrow> tracker_step s s' \<Longrightarrow> tracker_reachable s'"

inductive_cases tracker_stepE: "tracker_step (now, r) (now', r')"

text \<open>
  What every run keeps: the recorded failures are in order and not in the future; a closed breaker
  has recorded fewer failures than the threshold; a breaker that is not closed has been tripped in
  the past and its exit is scheduled, and a half-open one has been tripped for longer than the
  cooldown.
\<close>

definition tracker_inv :: "int \<Rightarrow> tracker \<Rightarrow> bool" where
  "tracker_inv now r \<longleftrightarrow>
     sorted (failures r) \<and> (\<forall>t \<in> set (failures r). t \<le> now) \<and>
     (circuit r = CircuitClosed \<longrightarrow> length (failures r) < CircuitBreakerFailureThreshold) \<and>
     (circuit r \<noteq> CircuitClosed \<longrightarrow> trippedAt r \<le> now \<and> trippedAt r + exitDelay \<in> set (exit_at r)) \<and>
     (circuit r = CircuitHalfOpen \<longrightarrow> CircuitBreakerCooldownPeriod < now - trippedAt r)"

lemma tracker_inv_new: "tracker_inv now (NewReliabilityTracker now)"
  by (simp add: tracker_inv_def NewReliabilityTracker_def tracker_consts)

lemma tracker_inv_later: "tracker_inv now r \<Longrightarrow> now \<le> now' \<Longrightarrow> tracker_inv now' r"
  by (fastforce simp: tracker_inv_def)

lemma tracker_inv_failure: "tracker_inv now r \<Longrightarrow> now \<le> now' \<Longrightarrow> tracker_inv now' (RecordFailure now' r)"
  by (cases "circuit r")
    (fastforce simp: tracker_inv_def RecordFailure_def Let_def sorted_append sorted_wrt_filter not_le)+

lemma tracker_inv_success: "tracker_inv now r \<Longrightarrow> now \<le> now' \<Longrightarrow> tracker_inv now' (RecordSuccess r)"
  by (fastforce simp: tracker_inv_def RecordSuccess_def Let_def tracker_consts)

lemma tracker_inv_check: "tracker_inv now r \<Longrightarrow> now \<le> now' \<Longrightarrow> tracker_inv now' (snd (IsCircuitOpen now' r))"
  by (fastforce simp: tracker_inv_def IsCircuitOpen_def Let_def)

lemma tracker_reachable_inv: "tracker_reachable s \<Longrightarrow> tracker_inv (fst s) (snd s)"
proof (induction rule: tracker_reachable.induct)
  case (reach_new now)
  show ?case by (simp add: tracker_inv_new)
next
  case (reach_step s s')
  from reach_step.hyps(2) reach_step.IH show ?case
    by cases (auto intro: tracker_inv_failure tracker_inv_success tracker_inv_check)
qed

section \<open>The sliding window\<close>

lemma sorted_filter_length:
  "sorted (xs :: int list) \<Longrightarrow>
   m \<le> length (filter (\<lambda>x. x > c) xs) \<longleftrightarrow> m = 0 \<or> m \<le> length xs \<and> xs ! (length xs - m) > c"
proof (induction xs)
  case (Cons x xs)
  show ?case
  proof (cases "x > c")
    case True
    then have "\<forall>y \<in> set (x # xs). y > c" using Cons.prems by auto
    moreover from this have "filter (\<lambda>x. x > c) (x # xs) = x # xs" by (simp add: filter_id_conv)
    moreover have "0 < m \<Longrightarrow> m \<le> length (x # xs) \<Longrightarrow> (x # xs) ! (length (x # xs) - m) \<in> set (x # xs)"
      by (rule nth_mem) simp
    ultimately show ?thesis by auto
  next
    case False
    have "length (filter (\<lambda>x. x > c) xs) \<le> length xs" by (rule length_filter_le)
    moreover have "m \<le> length xs \<Longrightarrow> (x # xs) ! (length (x # xs) - m) = xs ! (length xs - m)"
      by (simp add: Suc_diff_le)
    moreover have "m = Suc (length xs) \<Longrightarrow> (x # xs) ! (length (x # xs) - m) = x" by simp
    ultimately show ?thesis using Cons False by (cases "m \<le> length xs") (auto simp: le_Suc_eq)
  qed
qed auto

text \<open>
  A run of failures (at their times) and successes from a new tracker, and the times of its failures.
\<close>

definition run_events :: "int option list \<Rightarrow> tracker \<Rightarrow> tracker" where
  "run_events evs r = fold (\<lambda>ev r. case ev of Some t \<Rightarrow> RecordFailure t r | None \<Rightarrow> RecordSuccess r) evs r"

definition failure_times :: "int option list \<Rightarrow> int list" where
  "failure_times evs = List.map_filter id evs"

lemma failure_times_simps [simp]:
  "failure_times [] = []" "failure_times (None # evs) = failure_times evs"
  "failure_times (Some t # evs) = t # failure_times evs"
  "failure_times (evs @ evs') = failure_times evs @ failure_times evs'"
  by (simp_all add: failure_times_def map_filter_def)

definition window_overrun :: "int list \<Rightarrow> bool" where
  "window_overrun ts \<longleftrightarrow>
     (\<exists>i. i + CircuitBreakerFailureThreshold \<le> length ts \<and>
        ts ! (i + (CircuitBreakerFailureThreshold - 1)) - ts ! i < CircuitBreakerWindowDuration)"

lemma window_overrun_snoc:
  "window_overrun (ts @ [t]) \<longleftrightarrow>
     window_overrun ts \<or>
     CircuitBreakerFailureThreshold \<le> length (ts @ [t]) \<and>
       t - CircuitBreakerWindowDuration < (ts @ [t]) ! (length (ts @ [t]) - CircuitBreakerFailureThreshold)"
  (is "?L \<longleftrightarrow> ?R")
proof
  assume ?L
  then obtain i where i: "i + 10 \<le> length (ts @ [t])"
    and w: "(ts @ [t]) ! (i + 9) - (ts @ [t]) ! i < CircuitBreakerWindowDuration"
    by (auto simp: window_overrun_def CircuitBreakerFailureThreshold_def)
  show ?R
  proof (cases "i + 10 = length (ts @ [t])")
    case True
    then have "(ts @ [t]) ! (i + 9) = t" and "length (ts @ [t]) - 10 = i" by (auto simp: nth_append)
    then show ?thesis using i w by (simp add: CircuitBreakerFailureThreshold_def)
  next
    case False
    then have "i + 10 \<le> length ts" using i by simp
    then show ?thesis
      using w by (auto simp: window_overrun_def CircuitBreakerFailureThreshold_def nth_append intro!: exI [of _ i])
  qed
next
  assume ?R
  then show ?L
  proof
    assume "window_overrun ts"
    then obtain i where "i + 10 \<le> length ts" and "ts ! (i + 9) - ts ! i < CircuitBreakerWindowDuration"
      by (auto simp: window_overrun_def CircuitBreakerFailureThreshold_def)
    then show ?L
      by (auto simp: window_overrun_def CircuitBreakerFailureThreshold_def nth_append intro!: exI [of _ i])
  next
    assume *: "CircuitBreakerFailureThreshold \<le> length (ts @ [t]) \<and>
      t - CircuitBreakerWindowDuration < (ts @ [t]) ! (length (ts @ [t]) - CircuitBreakerFailureThreshold)"
    have "(ts @ [t]) ! (length (ts @ [t]) - 10 + 9) = t"
      using * by (auto simp: CircuitBreakerFailureThreshold_def nth_append)
    then show ?L
      using * unfolding window_overrun_def CircuitBreakerFailureThreshold_def
      by (intro exI [of _ "length (ts @ [t]) - 10"]) auto
  qed
qed

lemma RecordFailure_closed:
  fixes now :: int
  assumes "circuit r = CircuitClosed"
  defines "kept \<equiv> filter (\<lambda>t. t > now - CircuitBreakerWindowDuration) (failures r @ [now])"
  shows "circuit (RecordFailure now r) =
      (if CircuitBreakerFailureThreshold \<le> length kept then CircuitOpen else CircuitClosed)"
    and "failures (RecordFailure now r) = kept"
  using assms by (simp_all add: RecordFailure_def Let_def)

lemma run_events_window:
  assumes "sorted (failure_times evs)"
  shows "circuit (run_events evs (NewReliabilityTracker now)) =
      (if window_overrun (failure_times evs) then CircuitOpen else CircuitClosed) \<and>
    (\<not> window_overrun (failure_times evs) \<longrightarrow>
      failures (run_events evs (NewReliabilityTracker now)) =
        filter (\<lambda>t. t > last (failure_times evs) - CircuitBreakerWindowDuration) (failure_times evs))"
  using assms
proof (induction evs rule: rev_induct)
  case Nil
  then show ?case by (simp add: run_events_def NewReliabilityTracker_def window_overrun_def tracker_consts)
next
  case (snoc ev evs)
  define r where "r = run_events evs (NewReliabilityTracker now)"
  let ?ts = "failure_times evs"
  have IH: "circuit r = (if window_overrun ?ts then CircuitOpen else CircuitClosed)"
    "\<not> window_overrun ?ts \<Longrightarrow> failures r = filter (\<lambda>t. t > last ?ts - CircuitBreakerWindowDuration) ?ts"
    using snoc by (auto simp: r_def sorted_append)
  show ?case
  proof (cases ev)
    case None
    then show ?thesis
      using IH by (simp add: run_events_def r_def [unfolded run_events_def, symmetric] RecordSuccess_def Let_def)
  next
    case (Some t)
    then have sorted: "sorted (?ts @ [t])" using snoc.prems by simp
    have run: "run_events (evs @ [ev]) (NewReliabilityTracker now) = RecordFailure t r"
      by (simp add: run_events_def r_def Some)
    have kept: "filter (\<lambda>x. x > t - CircuitBreakerWindowDuration)
        (filter (\<lambda>x. x > last ?ts - CircuitBreakerWindowDuration) ?ts @ [t])
      = filter (\<lambda>x. x > t - CircuitBreakerWindowDuration) (?ts @ [t])"
      using sorted by (cases ?ts rule: rev_cases) (auto simp: sorted_append intro!: filter_cong)
    show ?thesis
    proof (cases "window_overrun ?ts")
      case True
      then show ?thesis
        using IH(1) run Some by (simp add: RecordFailure_def Let_def window_overrun_snoc)
    next
      case False
      define kept' where "kept' = filter (\<lambda>x. x > t - CircuitBreakerWindowDuration) (?ts @ [t])"
      have closed: "circuit r = CircuitClosed" using IH(1) False by simp
      have f: "failures (RecordFailure t r) = kept'"
        using RecordFailure_closed(2) [OF closed, of t] IH(2) [OF False] kept by (simp only: kept'_def)
      have "circuit (RecordFailure t r) =
          (if CircuitBreakerFailureThreshold \<le> length kept' then CircuitOpen else CircuitClosed)"
        using RecordFailure_closed(1) [OF closed, of t] IH(2) [OF False] kept by (simp only: kept'_def)
      moreover have "CircuitBreakerFailureThreshold \<le> length kept' \<longleftrightarrow> window_overrun (?ts @ [t])"
        using sorted_filter_length [OF sorted, of CircuitBreakerFailureThreshold "t - CircuitBreakerWindowDuration"]
          False
        by (simp only: kept'_def window_overrun_snoc) (simp add: CircuitBreakerFailureThreshold_def)
      ultimately show ?thesis using f run unfolding Some by (simp add: kept'_def del: filter_append)
    qed
  qed
qed

section \<open>The backoff\<close>

lemma backoff_seconds:
  fixes n :: nat
  assumes fl: "float64_rounding fl"
  defines "x \<equiv> fl (real_of_int MinBackoffSeconds * fl (2 ^ n))"
  shows "(if x > real_of_int MaxBackoffSeconds then real_of_int MaxBackoffSeconds else x) =
    real_of_int (min 30 (2 ^ n))"
proof (cases "n \<le> 4")
  case True
  have "fl (2 ^ n) = 2 ^ n" using float64_scaled [OF fl, of 1 n] True by simp
  moreover have "(2 :: int) ^ n \<le> 2 ^ 4" using True by (rule power_increasing) simp
  moreover have "(2 :: real) ^ n \<le> 2 ^ 4" using True by (rule power_increasing) simp
  ultimately show ?thesis
    by (simp add: x_def MinBackoffSeconds_def MaxBackoffSeconds_def min_def)
next
  case False
  then have "(2 :: real) ^ 5 \<le> 2 ^ n" and two: "(2 :: int) ^ 5 \<le> 2 ^ n"
    by (intro power_increasing; simp)+
  moreover have "fl 32 = 32" using float64_int [OF fl, of 32] by simp
  ultimately have "32 \<le> fl (2 ^ n)" using float64_ge [OF fl, of 32 "2 ^ n"] by simp
  then have "32 \<le> x"
    using float64_ge [OF fl, of 32 "fl (2 ^ n)"] \<open>fl 32 = 32\<close> by (simp add: x_def MinBackoffSeconds_def)
  then show ?thesis using two by (simp add: MaxBackoffSeconds_def)
qed

lemma jitter_bounds:
  fixes rand :: real
  assumes fl: "float64_rounding fl" and "0 \<le> rand" and "rand < 1"
  defines "j \<equiv> fl (1 + fl (fl (fl (rand * 2) * fl (1 / 5)) - fl (1 / 5)))"
  shows "819 / 1024 \<le> j \<and> j \<le> 1230 / 1024"
proof -
  have exact: "fl (real_of_int m / 1024) = real_of_int m / 1024" if "\<bar>m\<bar> \<le> 2 ^ 53" for m
    using float64_quotient [OF fl that, of 10] by simp
  have e: "fl (204 / 1024) = 204 / 1024" "fl (205 / 1024) = 205 / 1024" "fl (410 / 1024) = 410 / 1024"
    "fl (- 205 / 1024) = - 205 / 1024" "fl (206 / 1024) = 206 / 1024" "fl (819 / 1024) = 819 / 1024"
    "fl (1230 / 1024) = 1230 / 1024" "fl 0 = 0" "fl 2 = 2"
    using exact [of 204] exact [of 205] exact [of 410] exact [of "- 205"] exact [of 206] exact [of 819]
      exact [of 1230] exact [of 0] exact [of 2048] by simp_all
  define q where "q = fl (1 / 5)"
  have q: "204 / 1024 \<le> q" "q \<le> 205 / 1024"
    using float64_ge [OF fl _ e(1), of "1 / 5"] float64_le [OF fl _ e(2), of "1 / 5"] by (simp_all add: q_def)
  define t where "t = fl (rand * 2)"
  have t: "0 \<le> t" "t \<le> 2"
    using float64_ge [OF fl _ e(8), of "rand * 2"] float64_le [OF fl _ e(9), of "rand * 2"] assms(2,3)
    by (simp_all add: t_def)
  have "t * q \<le> 2 * (205 / 1024)" by (rule mult_mono) (use t q in auto)
  then have u: "0 \<le> fl (t * q)" "fl (t * q) \<le> 410 / 1024"
    using float64_ge [OF fl _ e(8), of "t * q"] float64_le [OF fl _ e(3), of "t * q"] t q by simp_all
  then have v: "- 205 / 1024 \<le> fl (fl (t * q) - q)" "fl (fl (t * q) - q) \<le> 206 / 1024"
    using float64_ge [OF fl _ e(4), of "fl (t * q) - q"] float64_le [OF fl _ e(5), of "fl (t * q) - q"] q
    by simp_all
  then show ?thesis
    using float64_ge [OF fl _ e(6), of "1 + fl (fl (t * q) - q)"]
      float64_le [OF fl _ e(7), of "1 + fl (fl (t * q) - q)"]
    by (simp add: j_def t_def [symmetric] q_def [symmetric])
qed

lemma GetBackoffDuration_bounds:
  fixes rand :: real and r :: tracker
  assumes fl: "float64_rounding fl" and "0 \<le> rand" and "rand < 1"
  defines "secs \<equiv> min 30 (2 ^ retryCount r)"
  shows "799804687 * secs \<le> GetBackoffDuration fl ovf rand r \<and>
    GetBackoffDuration fl ovf rand r \<le> 1201171875 * secs"
proof -
  define j where "j = fl (1 + fl (fl (fl (rand * 2) * fl (1 / 5)) - fl (1 / 5)))"
  have j: "819 / 1024 \<le> j" "j \<le> 1230 / 1024"
    using jitter_bounds [OF fl assms(2,3)] by (simp_all add: j_def)
  have secs: "1 \<le> secs" "secs \<le> 30" by (simp_all add: secs_def)
  have exact: "fl (real_of_int m / 1024) = real_of_int m / 1024" if "\<bar>m\<bar> \<le> 2 ^ 53" for m
    using float64_quotient [OF fl that, of 10] by simp
  have e: "fl (real_of_int (c * secs) / 1024) = real_of_int (c * secs) / 1024"
    if "0 \<le> c" "c \<le> 1230000000000" for c
  proof (rule exact)
    have "c * secs \<le> 1230000000000 * 30" by (rule mult_mono) (use that secs in auto)
    moreover have "0 \<le> c * secs" using that secs by simp
    ultimately show "\<bar>c * secs\<bar> \<le> 2 ^ 53" by simp
  qed
  define f where "f = fl (real_of_int secs * j)"
  have "real_of_int (819 * secs) / 1024 \<le> real_of_int secs * j"
    using mult_left_mono [OF j(1), of "real_of_int secs"] secs by simp
  then have f1: "real_of_int (819 * secs) / 1024 \<le> f" unfolding f_def by (rule float64_ge [OF fl]) (rule e; simp)
  have "real_of_int secs * j \<le> real_of_int (1230 * secs) / 1024"
    using mult_left_mono [OF j(2), of "real_of_int secs"] secs by simp
  then have f2: "f \<le> real_of_int (1230 * secs) / 1024" unfolding f_def by (rule float64_le [OF fl]) (rule e; simp)
  define x where "x = fl (f * real_of_int time_Second)"
  have "real_of_int (819000000000 * secs) / 1024 \<le> f * real_of_int time_Second"
    using f1 by (simp add: time_Second_def)
  then have x1: "real_of_int (819000000000 * secs) / 1024 \<le> x"
    unfolding x_def by (rule float64_ge [OF fl]) (rule e; simp)
  have "f * real_of_int time_Second \<le> real_of_int (1230000000000 * secs) / 1024"
    using f2 by (simp add: time_Second_def)
  then have x2: "x \<le> real_of_int (1230000000000 * secs) / 1024"
    unfolding x_def by (rule float64_le [OF fl]) (rule e; simp)
  have lo: "real_of_int (799804687 * secs) \<le> x" using x1 secs by simp
  have hi: "x \<le> real_of_int (1201171875 * secs)" using x2 by simp
  have "799804687 * secs \<le> trunc_real x \<and> trunc_real x \<le> 1201171875 * secs"
    by (rule trunc_real_bounds [OF _ lo hi]) (use secs in simp)
  moreover have "GetBackoffDuration fl ovf rand r = float_to_int64 ovf x"
    unfolding GetBackoffDuration_def Let_def backoff_seconds [OF fl] x_def f_def j_def secs_def by simp
  ultimately show ?thesis
    using secs by (simp add: float_to_int64_def int64_range_def)
qed

text \<open>Failures (\<open>Inl\<close>) and checks (\<open>Inr\<close>) at their times, without a success.\<close>

definition apply_checks :: "(int + int) list \<Rightarrow> tracker \<Rightarrow> tracker" where
  "apply_checks ops r =
     fold (\<lambda>op r. case op of Inl t \<Rightarrow> RecordFailure t r | Inr t \<Rightarrow> snd (IsCircuitOpen t r)) ops r"

section \<open>Properties\<close>

text \<open>
  C15. Over any history of failures (at non-decreasing times) and successes of a new tracker, the
  circuit breaker is open exactly when ten consecutive failures fell within five minutes of each
  other, and closed otherwise; successes do not clear the window.
\<close>

theorem breaker_trips_on_window_overrun:
  assumes "sorted (failure_times evs)"
  shows "circuit (run_events evs (NewReliabilityTracker now)) =
    (if \<exists>i. i + 10 \<le> length (failure_times evs) \<and>
          failure_times evs ! (i + 9) - failure_times evs ! i < 300 * time_Second
     then CircuitOpen else CircuitClosed)"
  using run_events_window [OF assms, of now]
  by (simp add: window_overrun_def CircuitBreakerFailureThreshold_def CircuitBreakerWindowDuration_def)

theorem breaker_trips_on_window_overrun_witness:
  "circuit (run_events (replicate 10 (Some 7)) (NewReliabilityTracker 0)) = CircuitOpen"
proof -
  have t: "failure_times (replicate 10 (Some (7 :: int))) = replicate 10 7"
    by (simp add: numeral_eq_Suc)
  have "\<exists>i. i + 10 \<le> length (replicate 10 (7 :: int)) \<and>
    replicate 10 (7 :: int) ! (i + 9) - replicate 10 7 ! i < 300 * time_Second"
    by (intro exI [of _ 0]) (simp add: time_Second_def)
  then show ?thesis
    using breaker_trips_on_window_overrun [of "replicate 10 (Some 7)" 0] unfolding t
    by (simp only: sorted_replicate if_True)
qed

text \<open>
  The breaker is half-open only in a process that should have exited: whenever a tracker that
  evolved by the program's operations is half-open, one of its scheduled exits was due at least
  59.5 seconds ago. The recovery the half-open state stands for needs a process that outlives its
  own exit.
\<close>

theorem half_open_outlives_exit:
  assumes "tracker_reachable (now, r)" and "circuit r = CircuitHalfOpen"
  shows "\<exists>x \<in> set (exit_at r). x + 59500000000 < now"
proof -
  have "tracker_inv now r" using tracker_reachable_inv [OF assms(1)] by simp
  then have "trippedAt r + exitDelay \<in> set (exit_at r)" and "60 * time_Second < now - trippedAt r"
    using assms(2) by (auto simp: tracker_inv_def CircuitBreakerCooldownPeriod_def)
  then show ?thesis
    by (intro bexI [of _ "trippedAt r + exitDelay"]) (auto simp: exitDelay_def time_Second_def)
qed

lemma tracker_reachable_failures:
  "tracker_reachable (0, r) \<Longrightarrow> tracker_reachable (0, (RecordFailure 0 ^^ n) r)"
  by (induction n) (auto intro: reach_step step_failure)

definition demo_half_open :: tracker where
  "demo_half_open = snd (IsCircuitOpen (61 * time_Second) ((RecordFailure 0 ^^ 10) (NewReliabilityTracker 0)))"

lemma demo_half_open: "circuit demo_half_open = CircuitHalfOpen" "exit_at demo_half_open = [exitDelay]"
  by (simp_all add: demo_half_open_def numeral_eq_Suc RecordFailure_def NewReliabilityTracker_def
      IsCircuitOpen_def Let_def tracker_consts)

lemma demo_half_open_reachable: "tracker_reachable (61 * time_Second, demo_half_open)"
  unfolding demo_half_open_def
  by (rule reach_step [OF tracker_reachable_failures [OF reach_new]])
    (rule step_check, simp add: time_Second_def)

theorem half_open_outlives_exit_witness: "exitDelay + 59500000000 < 61 * time_Second"
  using half_open_outlives_exit [OF demo_half_open_reachable demo_half_open(1)] demo_half_open(2) by simp

text \<open>
  A half-open breaker tests nothing: however many failures are recorded and however often it is
  checked, it stays half-open, lets every operation through, schedules no further exit and no longer
  counts retries, so the backoff stays where it was. Only a success changes it.
\<close>

theorem half_open_never_reopens:
  assumes "circuit r = CircuitHalfOpen"
  shows "circuit (apply_checks ops r) = CircuitHalfOpen \<and>
    \<not> fst (IsCircuitOpen now (apply_checks ops r)) \<and>
    exit_at (apply_checks ops r) = exit_at r \<and> retryCount (apply_checks ops r) = retryCount r"
  using assms
proof (induction ops rule: rev_induct)
  case Nil
  then show ?case by (simp add: apply_checks_def IsCircuitOpen_def Let_def)
next
  case (snoc op ops)
  then show ?case
    by (cases op) (simp_all add: apply_checks_def IsCircuitOpen_def RecordFailure_def Let_def)
qed

theorem half_open_never_reopens_witness:
  "circuit (apply_checks [Inl 1, Inl 2, Inr 3] demo_half_open) = CircuitHalfOpen"
  using half_open_never_reopens [OF demo_half_open(1), of "[Inl 1, Inl 2, Inr 3]" 0] by simp

text \<open>
  The backoff is the doubling backoff \<open>min 30 (2 ^ retryCount)\<close> seconds with a jitter of at most
  about 20 percent either way (20.02 percent, for any IEEE rounding). The jitter is applied after the
  cap, so at the cap the pause can exceed \<^verbatim>\<open>MaxBackoffSeconds\<close>.
\<close>

theorem backoff_duration_jitter:
  assumes "float64_rounding fl" and "0 \<le> rand" and "rand < 1"
  shows "799804687 * min 30 (2 ^ retryCount r) \<le> GetBackoffDuration fl ovf rand r \<and>
    GetBackoffDuration fl ovf rand r \<le> 1201171875 * min 30 (2 ^ retryCount r)"
  by (rule GetBackoffDuration_bounds [OF assms])

theorem backoff_duration_jitter_witness:
  "799804687 \<le> GetBackoffDuration (\<lambda>x. x) (\<lambda>_. 0) 0 (NewReliabilityTracker 0) \<and>
   GetBackoffDuration (\<lambda>x. x) (\<lambda>_. 0) 0 (NewReliabilityTracker 0) \<le> 1201171875"
  using backoff_duration_jitter [OF float64_rounding_id, of 0 "NewReliabilityTracker 0" "\<lambda>_. 0"]
  by (simp add: NewReliabilityTracker_def)

text \<open>
  With the largest jitter the pause at the cap is above the documented maximum of 30 seconds.
\<close>

theorem backoff_exceeds_documented_max:
  "30 * time_Second <
     GetBackoffDuration (\<lambda>x. x) ovf (9 / 10) ((NewReliabilityTracker 0)\<lparr>retryCount := 5\<rparr>)"
  by (simp add: GetBackoffDuration_def Let_def NewReliabilityTracker_def MinBackoffSeconds_def
      MaxBackoffSeconds_def time_Second_def float_to_int64_def trunc_real_def int64_range_def)

end
