(* ===== verification/Metrics.thy ===== *)
theory Metrics
  imports Prelude Complex_Main
begin

text \<open>
  \<^verbatim>\<open>pkg/metrics/metrics.go\<close>. The Prometheus client is a library the program calls; the state of a
  \<^verbatim>\<open>Metrics\<close> value is modelled by the calls made on its vectors, in order (\<open>metrics\<close>). What the
  library documents of them is read off that record: a counter has counted its increments, a gauge
  holds the value it was last set to (0 before), and \<^verbatim>\<open>WithLabelValues\<close> panics unless the vector was
  created with as many labels as values are given, registration unless the names differ.
\<close>

datatype prom_call =
    CounterInc string "string list"
  | GaugeSet string "string list" real
  | HistObserve string "string list" real

type_synonym metrics = "prom_call list"

definition counter_value :: "metrics \<Rightarrow> string \<Rightarrow> string list \<Rightarrow> nat" where
  "counter_value m name labels = count_list m (CounterInc name labels)"

fun gauge_value :: "metrics \<Rightarrow> string \<Rightarrow> string list \<Rightarrow> real" where
  "gauge_value [] name labels = 0"
| "gauge_value (c # m) name labels =
     (if \<exists>v. GaugeSet name labels v \<in> set m then gauge_value m name labels
      else case c of GaugeSet n l v \<Rightarrow> if n = name \<and> l = labels then v else 0 | _ \<Rightarrow> 0)"

datatype metric_kind = Counter | Gauge | Histogram

text \<open>\<^verbatim>\<open>NewMetrics\<close>: the vectors it registers, with their kinds and label names.\<close>

definition NewMetrics :: "(string \<times> metric_kind \<times> string list) list" where
  "NewMetrics =
     [(''nodes_watched'', Gauge, [''nodepool'']),
      (''node_adds_total'', Counter, [''nodepool'']),
      (''node_deletes_total'', Counter, [''nodepool'']),
      (''node_processing_errors_total'', Counter, [''nodepool'', ''operation'', ''error_type'']),
      (''allow_list_updates_total'', Counter, [''database'', ''operation'']),
      (''allow_list_update_errors_total'', Counter, [''database'', ''operation'', ''error_type'']),
      (''allow_list_update_latency_seconds'', Histogram, [''database'', ''operation'']),
      (''allow_list_open_access_alerts_total'', Counter, [''database'']),
      (''api_rate_limit_remaining'', Gauge, [''api'']),
      (''api_requests_total'', Counter, [''api'', ''endpoint'', ''status'']),
      (''retries_total'', Counter, [''operation'']),
      (''retry_failures_total'', Counter, [''operation'']),
      (''leader_status'', Gauge, []),
      (''pending_deletions'', Gauge, [''nodepool'']),
      (''node_watcher_leader_election_errors_total'', Counter, [''type'']),
      (''node_watcher_leader_election_restarts_total'', Counter, [])]"

section \<open>The operations\<close>

definition UpdateNodesWatched :: "string \<Rightarrow> int \<Rightarrow> metrics \<Rightarrow> metrics" where
  "UpdateNodesWatched nodepool count m = m @ [GaugeSet ''nodes_watched'' [nodepool] (real_of_int count)]"

definition IncrementNodeAdds :: "string \<Rightarrow> metrics \<Rightarrow> metrics" where
  "IncrementNodeAdds nodepool m = m @ [CounterInc ''node_adds_total'' [nodepool]]"

definition IncrementNodeDeletes :: "string \<Rightarrow> metrics \<Rightarrow> metrics" where
  "IncrementNodeDeletes nodepool m = m @ [CounterInc ''node_deletes_total'' [nodepool]]"

definition IncrementNodeProcessingErrors :: "string \<Rightarrow> string \<Rightarrow> string \<Rightarrow> metrics \<Rightarrow> metrics" where
  "IncrementNodeProcessingErrors nodepool operation errorType m =
     m @ [CounterInc ''node_processing_errors_total'' [nodepool, operation, errorType]]"

definition IncrementAllowListUpdates :: "string \<Rightarrow> string \<Rightarrow> metrics \<Rightarrow> metrics" where
  "IncrementAllowListUpdates database operation m =
     m @ [CounterInc ''allow_list_updates_total'' [database, operation]]"

definition IncrementAllowListUpdateErrors :: "string \<Rightarrow> string \<Rightarrow> string \<Rightarrow> metrics \<Rightarrow> metrics" where
  "IncrementAllowListUpdateErrors database operation errorType m =
     m @ [CounterInc ''allow_list_update_errors_total'' [database, operation, errorType]]"

definition ObserveAllowListUpdateLatency :: "string \<Rightarrow> string \<Rightarrow> real \<Rightarrow> metrics \<Rightarrow> metrics" where
  "ObserveAllowListUpdateLatency database operation latencySeconds m =
     m @ [HistObserve ''allow_list_update_latency_seconds'' [database, operation] latencySeconds]"

definition IncrementAllowListOpenAccessAlerts :: "string \<Rightarrow> metrics \<Rightarrow> metrics" where
  "IncrementAllowListOpenAccessAlerts database m =
     m @ [CounterInc ''allow_list_open_access_alerts_total'' [database]]"

definition UpdateAPIRateLimitRemaining :: "string \<Rightarrow> real \<Rightarrow> metrics \<Rightarrow> metrics" where
  "UpdateAPIRateLimitRemaining api remaining m = m @ [GaugeSet ''api_rate_limit_remaining'' [api] remaining]"

definition IncrementAPIRequests :: "string \<Rightarrow> string \<Rightarrow> string \<Rightarrow> metrics \<Rightarrow> metrics" where
  "IncrementAPIRequests api endpoint status m = m @ [CounterInc ''api_requests_total'' [api, endpoint, status]]"

definition IncrementRetries :: "string \<Rightarrow> metrics \<Rightarrow> metrics" where
  "IncrementRetries operation m = m @ [CounterInc ''retries_total'' [operation]]"

definition IncrementRetryFailures :: "string \<Rightarrow> metrics \<Rightarrow> metrics" where
  "IncrementRetryFailures operation m = m @ [CounterInc ''retry_failures_total'' [operation]]"

definition SetLeaderStatus :: "bool \<Rightarrow> metrics \<Rightarrow> metrics" where
  "SetLeaderStatus isLeader m =
     (let value = (if isLeader then 1 else 0) in m @ [GaugeSet ''leader_status'' [] value])"

definition UpdatePendingDeletions :: "string \<Rightarrow> int \<Rightarrow> metrics \<Rightarrow> metrics" where
  "UpdatePendingDeletions nodepool count m =
     m @ [GaugeSet ''pending_deletions'' [nodepool] (real_of_int count)]"

definition RegisterMetrics :: "metrics \<Rightarrow> metrics" where
  "RegisterMetrics m = m"

definition IncrementNodeCount :: "string \<Rightarrow> metrics \<Rightarrow> metrics" where
  "IncrementNodeCount nodepool m =
     (let currentValue = gauge_value m ''nodes_watched'' [nodepool]
      in m @ [GaugeSet ''nodes_watched'' [nodepool] (currentValue + 1)])"

definition DecrementNodeCount :: "string \<Rightarrow> metrics \<Rightarrow> metrics" where
  "DecrementNodeCount nodepool m =
     (let currentValue = gauge_value m ''nodes_watched'' [nodepool]
      in if currentValue > 0 then m @ [GaugeSet ''nodes_watched'' [nodepool] (currentValue - 1)] else m)"

definition SetNodeCount :: "string \<Rightarrow> int \<Rightarrow> metrics \<Rightarrow> metrics" where
  "SetNodeCount nodepool count m = m @ [GaugeSet ''nodes_watched'' [nodepool] (real_of_int count)]"

definition ObserveOperationDuration :: "string \<Rightarrow> string \<Rightarrow> real \<Rightarrow> metrics \<Rightarrow> metrics" where
  "ObserveOperationDuration operation outcome durationSeconds m = m"

definition IncrementLeaderElectionError :: "string \<Rightarrow> metrics \<Rightarrow> metrics" where
  "IncrementLeaderElectionError errorType m =
     m @ [CounterInc ''node_watcher_leader_election_errors_total'' [errorType]]"

definition IncrementLeaderElectionRestart :: "metrics \<Rightarrow> metrics" where
  "IncrementLeaderElectionRestart m = m @ [CounterInc ''node_watcher_leader_election_restarts_total'' []]"

lemmas metrics_ops = UpdateNodesWatched_def IncrementNodeAdds_def IncrementNodeDeletes_def
  IncrementNodeProcessingErrors_def IncrementAllowListUpdates_def IncrementAllowListUpdateErrors_def
  ObserveAllowListUpdateLatency_def IncrementAllowListOpenAccessAlerts_def
  UpdateAPIRateLimitRemaining_def IncrementAPIRequests_def IncrementRetries_def
  IncrementRetryFailures_def SetLeaderStatus_def UpdatePendingDeletions_def RegisterMetrics_def
  IncrementNodeCount_def DecrementNodeCount_def SetNodeCount_def ObserveOperationDuration_def
  IncrementLeaderElectionError_def IncrementLeaderElectionRestart_def

lemma counter_value_append [simp]:
  "counter_value (m @ m') name labels = counter_value m name labels + counter_value m' name labels"
  by (simp add: counter_value_def)

lemma counter_value_Nil [simp]: "counter_value [] name labels = 0"
  by (simp add: counter_value_def)

lemma counter_value_Cons [simp]:
  "counter_value (c # m) name labels =
     (if c = CounterInc name labels then Suc (counter_value m name labels) else counter_value m name labels)"
  by (simp add: counter_value_def)

lemma gauge_value_snoc [simp]:
  "gauge_value (m @ [c]) name labels =
     (case c of GaugeSet n l v \<Rightarrow> if n = name \<and> l = labels then v else gauge_value m name labels
      | _ \<Rightarrow> gauge_value m name labels)"
  by (induction m) (auto split: prom_call.splits)

section \<open>The node count as an interface\<close>

text \<open>
  What the three node-count operations promise each other, over any representation: the counter of
  one pool moves by one, never below zero by a decrement, and no operation touches another pool.
\<close>

locale node_count =
  fixes inc :: "string \<Rightarrow> 'm \<Rightarrow> 'm"
    and dec :: "string \<Rightarrow> 'm \<Rightarrow> 'm"
    and set_to :: "string \<Rightarrow> int \<Rightarrow> 'm \<Rightarrow> 'm"
    and value_of :: "'m \<Rightarrow> string \<Rightarrow> real"
  assumes value_inc: "value_of (inc p m) q = (if p = q then value_of m q + 1 else value_of m q)"
    and value_dec: "value_of (dec p m) q =
      (if p = q \<and> 0 < value_of m q then value_of m q - 1 else value_of m q)"
    and value_set: "value_of (set_to p n m) q = (if p = q then real_of_int n else value_of m q)"
begin

lemma dec_inc: "0 \<le> value_of m q \<Longrightarrow> value_of (dec p (inc p m)) q = value_of m q"
  by (simp add: value_inc value_dec)

lemma value_incs: "value_of ((inc p ^^ n) m) q = (if p = q then value_of m q + real n else value_of m q)"
  by (induction n) (auto simp: value_inc)

lemma value_decs:
  assumes "value_of m p = real k"
  shows "value_of ((dec p ^^ n) m) p = real (k - n)"
proof (induction n)
  case (Suc n)
  then show ?case by (cases "n < k") (auto simp: value_dec of_nat_diff)
qed (simp add: assms)

text \<open>A burst of joins after a reset, and then a burst of departures, never counted below zero.\<close>

lemma set_incs_decs:
  "value_of ((dec p ^^ d) ((inc p ^^ i) (set_to p (int k) m))) p = real (k + i - d)"
  by (rule value_decs) (simp add: value_incs value_set)

lemma others_unchanged:
  "p \<noteq> q \<Longrightarrow> value_of ((dec p ^^ d) ((inc p ^^ i) (set_to p k m))) q = value_of m q"
proof (induction d)
  case 0
  then show ?case by (simp add: value_incs value_set)
qed (simp add: value_dec)

end

interpretation watched: node_count IncrementNodeCount DecrementNodeCount SetNodeCount
  "\<lambda>m p. gauge_value m ''nodes_watched'' [p]"
  by unfold_locales
    (simp_all add: IncrementNodeCount_def DecrementNodeCount_def SetNodeCount_def Let_def)

section \<open>Calls that cannot panic\<close>

fun call_ok :: "(string \<times> metric_kind \<times> string list) list \<Rightarrow> prom_call \<Rightarrow> bool" where
  "call_ok reg (CounterInc n l) \<longleftrightarrow> (\<exists>ls. (n, Counter, ls) \<in> set reg \<and> length ls = length l)"
| "call_ok reg (GaugeSet n l v) \<longleftrightarrow> (\<exists>ls. (n, Gauge, ls) \<in> set reg \<and> length ls = length l)"
| "call_ok reg (HistObserve n l v) \<longleftrightarrow> (\<exists>ls. (n, Histogram, ls) \<in> set reg \<and> length ls = length l)"

definition metrics_ok :: "metrics \<Rightarrow> bool" where
  "metrics_ok m \<longleftrightarrow> list_all (call_ok NewMetrics) m"

lemma metrics_ok_append [simp]: "metrics_ok (m @ m') \<longleftrightarrow> metrics_ok m \<and> metrics_ok m'"
  by (simp add: metrics_ok_def)

lemma metrics_ok_Nil [simp]: "metrics_ok []"
  by (simp add: metrics_ok_def)

lemma metrics_ok_calls:
  "metrics_ok [GaugeSet ''nodes_watched'' [a] v]"
  "metrics_ok [CounterInc ''node_adds_total'' [a]]"
  "metrics_ok [CounterInc ''node_deletes_total'' [a]]"
  "metrics_ok [CounterInc ''node_processing_errors_total'' [a, b, c]]"
  "metrics_ok [CounterInc ''allow_list_updates_total'' [a, b]]"
  "metrics_ok [CounterInc ''allow_list_update_errors_total'' [a, b, c]]"
  "metrics_ok [HistObserve ''allow_list_update_latency_seconds'' [a, b] v]"
  "metrics_ok [CounterInc ''allow_list_open_access_alerts_total'' [a]]"
  "metrics_ok [GaugeSet ''api_rate_limit_remaining'' [a] v]"
  "metrics_ok [CounterInc ''api_requests_total'' [a, b, c]]"
  "metrics_ok [CounterInc ''retries_total'' [a]]"
  "metrics_ok [CounterInc ''retry_failures_total'' [a]]"
  "metrics_ok [GaugeSet ''leader_status'' [] v]"
  "metrics_ok [GaugeSet ''pending_deletions'' [a] v]"
  "metrics_ok [CounterInc ''node_watcher_leader_election_errors_total'' [a]]"
  "metrics_ok [CounterInc ''node_watcher_leader_election_restarts_total'' []]"
  by (simp_all add: metrics_ok_def NewMetrics_def)

section \<open>Properties\<close>

text \<open>
  C39. No operation on \<^verbatim>\<open>Metrics\<close> can panic: the names \<^verbatim>\<open>NewMetrics\<close> registers are distinct, and every
  operation uses a registered vector of the right kind with the right number of label values, so a
  record of such calls stays one.
\<close>

theorem metrics_never_panic:
  assumes "metrics_ok m"
  shows "distinct (map fst NewMetrics) \<and>
    metrics_ok (UpdateNodesWatched np n m) \<and> metrics_ok (IncrementNodeAdds np m) \<and>
    metrics_ok (IncrementNodeDeletes np m) \<and> metrics_ok (IncrementNodeProcessingErrors np op et m) \<and>
    metrics_ok (IncrementAllowListUpdates db op m) \<and> metrics_ok (IncrementAllowListUpdateErrors db op et m) \<and>
    metrics_ok (ObserveAllowListUpdateLatency db op x m) \<and> metrics_ok (IncrementAllowListOpenAccessAlerts db m) \<and>
    metrics_ok (UpdateAPIRateLimitRemaining api x m) \<and> metrics_ok (IncrementAPIRequests api ep st m) \<and>
    metrics_ok (IncrementRetries op m) \<and> metrics_ok (IncrementRetryFailures op m) \<and>
    metrics_ok (SetLeaderStatus b m) \<and> metrics_ok (UpdatePendingDeletions np n m) \<and>
    metrics_ok (IncrementNodeCount np m) \<and> metrics_ok (DecrementNodeCount np m) \<and>
    metrics_ok (SetNodeCount np n m) \<and> metrics_ok (IncrementLeaderElectionError et m) \<and>
    metrics_ok (IncrementLeaderElectionRestart m)"
proof -
  have "distinct (map fst NewMetrics)" by (simp add: NewMetrics_def)
  then show ?thesis
    using assms by (simp add: metrics_ops Let_def metrics_ok_calls)
qed

theorem metrics_never_panic_witness: "metrics_ok (IncrementNodeAdds ''prod'' [])"
  using metrics_never_panic [OF metrics_ok_Nil, of "''prod''"] by simp

text \<open>
  The node count of a pool that is set to \<open>k\<close>, then incremented \<open>i\<close> times and decremented \<open>d\<close> times
  is \<open>k + i - d\<close>, stopped at zero, and the counts of the other pools have not moved.
\<close>

theorem node_count_tracks:
  assumes "p \<noteq> q"
  shows "gauge_value ((DecrementNodeCount p ^^ d) ((IncrementNodeCount p ^^ i) (SetNodeCount p (int k) m)))
      ''nodes_watched'' [p] = real (k + i - d) \<and>
    gauge_value ((DecrementNodeCount p ^^ d) ((IncrementNodeCount p ^^ i) (SetNodeCount p (int k) m)))
      ''nodes_watched'' [q] = gauge_value m ''nodes_watched'' [q]"
  using watched.set_incs_decs watched.others_unchanged [OF assms] by simp

theorem node_count_tracks_witness:
  "gauge_value ((DecrementNodeCount ''a'' ^^ 3) ((IncrementNodeCount ''a'' ^^ 1) (SetNodeCount ''a'' (int 1) [])))
     ''nodes_watched'' [''a''] = 0"
  using node_count_tracks [of "''a''" "''b''" 3 1 1 "[]"] by simp

end
