(* ===== verification/LinodeClient.thy ===== *)
theory LinodeClient
  imports Retry Metrics "HOL-Library.AList"
begin

text \<open>
  \<^verbatim>\<open>pkg/linode/client.go\<close>: the client that keeps database allow lists, with its cache. The outside
  world is a state \<open>'w\<close>; \<open>linode_env\<close> holds what the client uses of it: the \<^verbatim>\<open>LinodeAPI\<close>
  interface, the rate limiter's \<^verbatim>\<open>Wait\<close>, the clock, the runtime of the retry loop under the call's
  context, and the iteration orders of the two maps the code ranges over. Logging is left out.
\<close>

record 'w linode_env =
  api_get :: "string \<Rightarrow> 'w \<Rightarrow> string list result \<times> 'w"
  api_update :: "string \<Rightarrow> string list \<Rightarrow> 'w \<Rightarrow> go_error option \<times> 'w"
  limiter_wait :: "'w \<Rightarrow> go_error option \<times> 'w"
  clock_now :: "'w \<Rightarrow> int \<times> 'w"
  runtime :: "'w retry_env"
  ip_order :: "string range_order"
  db_order :: "string range_order"

record cache_entry =
  AllowList :: "string list"
  LastFetched :: int

record 'w client =
  allowListCache :: "string \<rightharpoonup> cache_entry"
  client_metrics :: metrics
  world :: 'w

definition NewClientWithAPI :: "metrics \<Rightarrow> 'w \<Rightarrow> 'w client" where
  "NewClientWithAPI m w = \<lparr>allowListCache = Map.empty, client_metrics = m, world = w\<rparr>"

text \<open>\<^verbatim>\<open>float64(cfg.APIRateLimit) / 60.0\<close>: the rate the limiter is created with (burst 1).\<close>

definition limiter_rps :: "(real \<Rightarrow> real) \<Rightarrow> config \<Rightarrow> real" where
  "limiter_rps fl cfg = fl (fl (real_of_int (APIRateLimit cfg)) / 60)"

section \<open>The adapter of the Linode service\<close>

text \<open>The two calls of \<^verbatim>\<open>linodego\<close> the adapter makes, on numeric database IDs.\<close>

record 'w mysql_service =
  GetMySQLDatabase :: "int \<Rightarrow> 'w \<Rightarrow> string list result \<times> 'w"
  UpdateMySQLDatabase :: "int \<Rightarrow> string list \<Rightarrow> 'w \<Rightarrow> go_error option \<times> 'w"

definition adapter_GetDatabaseAllowList ::
  "'w mysql_service \<Rightarrow> string \<Rightarrow> 'w \<Rightarrow> string list result \<times> 'w" where
  "adapter_GetDatabaseAllowList svc dbID w =
     (case atoi dbID of
        Inl err \<Rightarrow> (Inl (''invalid database ID '' @ dbID @ '': '' @ err), w)
      | Inr dbIDInt \<Rightarrow>
          (case GetMySQLDatabase svc dbIDInt w of
             (Inl err, w') \<Rightarrow> (Inl (''failed to get database '' @ dbID @ '': '' @ err), w')
           | (Inr allowList, w') \<Rightarrow> (Inr allowList, w')))"

definition adapter_UpdateDatabaseAllowList ::
  "'w mysql_service \<Rightarrow> string \<Rightarrow> string list \<Rightarrow> 'w \<Rightarrow> go_error option \<times> 'w" where
  "adapter_UpdateDatabaseAllowList svc dbID allowList w =
     (case atoi dbID of
        Inl err \<Rightarrow> (Some (''invalid database ID '' @ dbID @ '': '' @ err), w)
      | Inr dbIDInt \<Rightarrow>
          (case UpdateMySQLDatabase svc dbIDInt allowList w of
             (Some err, w') \<Rightarrow> (Some (''failed to update database '' @ dbID @ '' allow list: '' @ err), w')
           | (None, w') \<Rightarrow> (None, w')))"

section \<open>Normalisation of addresses\<close>

definition AllowAnyIP :: string where
  "AllowAnyIP = ''0.0.0.0/0''"

definition normalizeIP :: "string \<Rightarrow> string" where
  "normalizeIP ip =
     (if contains ip ''/'' then ip
      else if contains ip '':'' then ip @ ''/128''
      else ip @ ''/32'')"

lemma normalizeIP_slash: "CHR ''/'' \<in> set (normalizeIP ip)"
  by (simp add: normalizeIP_def)

lemma normalizeIP_idem [simp]: "normalizeIP (normalizeIP ip) = normalizeIP ip"
  using normalizeIP_slash [of ip] by (simp add: normalizeIP_def [of "normalizeIP ip"])

section \<open>The cache\<close>

definition alert_open_access :: "string \<Rightarrow> string list \<Rightarrow> metrics \<Rightarrow> metrics" where
  "alert_open_access dbName allowList m =
     fold (\<lambda>entry m. if entry = ''0.0.0.0/0'' \<or> entry = ''::/0''
                      then IncrementAllowListOpenAccessAlerts dbName m else m) allowList m"

definition fetchAndCacheAllowList ::
  "'w linode_env \<Rightarrow> string \<Rightarrow> string \<Rightarrow> 'w client \<Rightarrow> go_error option \<times> 'w client" where
  "fetchAndCacheAllowList env dbID dbName c =
     (case limiter_wait env (world c) of
        (Some err, w1) \<Rightarrow> (Some (''rate limiter error: '' @ err), c\<lparr>world := w1\<rparr>)
      | (None, w1) \<Rightarrow>
          (case api_get env dbID w1 of
             (Inl err, w2) \<Rightarrow> (Some err, c\<lparr>world := w2\<rparr>)
           | (Inr allowList, w2) \<Rightarrow>
               (case clock_now env w2 of
                  (now, w3) \<Rightarrow>
                    (None,
                     c\<lparr>client_metrics := alert_open_access dbName allowList (client_metrics c),
                       allowListCache := (allowListCache c)(dbID \<mapsto> \<lparr>AllowList = allowList, LastFetched = now\<rparr>),
                       world := w3\<rparr>))))"

definition getCachedAllowList ::
  "'w linode_env \<Rightarrow> string \<Rightarrow> string \<Rightarrow> 'w client \<Rightarrow> string list result \<times> 'w client" where
  "getCachedAllowList env dbID dbName c =
     (case allowListCache c dbID of
        Some entry \<Rightarrow> (Inr (AllowList entry), c)
      | None \<Rightarrow>
          (case fetchAndCacheAllowList env dbID dbName c of
             (Some err, c1) \<Rightarrow> (Inl err, c1)
           | (None, c1) \<Rightarrow>
               (case allowListCache c1 dbID of
                  Some entry \<Rightarrow> (Inr (AllowList entry), c1)
                | None \<Rightarrow> (Inr [], c1))))"

definition invalidateCache :: "string \<Rightarrow> 'w client \<Rightarrow> 'w client" where
  "invalidateCache dbID c = c\<lparr>allowListCache := (allowListCache c)(dbID := None)\<rparr>"

text \<open>\<^verbatim>\<open>dbIDs\<close>: the configured database IDs with their names, as an association list; the last name wins.\<close>

definition configured_dbs :: "config \<Rightarrow> (string \<times> string) list" where
  "configured_dbs cfg =
     fold (\<lambda>np m. fold (\<lambda>db m. AList.update (db_ID db) (db_Name db) m) (np_Databases np) m) (Nodepools cfg) []"

definition InitializeCache :: "'w linode_env \<Rightarrow> config \<Rightarrow> 'w client \<Rightarrow> go_error option \<times> 'w client" where
  "InitializeCache env cfg c =
     (let dbIDs = configured_dbs cfg
      in loop_last_err (\<lambda>dbID c. fetchAndCacheAllowList env dbID (the (map_of dbIDs dbID)) c)
           (db_order env (set (map fst dbIDs))) None c)"

section \<open>Updating an allow list\<close>

text \<open>
  The set of normalised entries (\<^verbatim>\<open>ipSet\<close>), the edit of the operation with its \<^verbatim>\<open>modified\<close> flag, and
  one attempt: the closure that \<^verbatim>\<open>updateDatabaseAllowList\<close> retries.
\<close>

definition ip_set :: "string list \<Rightarrow> string set" where
  "ip_set allowList = fold (\<lambda>entry S. insert (normalizeIP entry) S) allowList {}"

definition edit_ip_set :: "string \<Rightarrow> string \<Rightarrow> string set \<Rightarrow> bool \<times> string set" where
  "edit_ip_set operation ip S =
     (if operation = ''add'' then
        (let ipToAdd = normalizeIP ip in if ipToAdd \<notin> S then (True, insert ipToAdd S) else (False, S))
      else if operation = ''remove'' then
        (let ipToRemove = normalizeIP ip in if ipToRemove \<in> S then (True, S - {ipToRemove}) else (False, S))
      else (False, S))"

definition update_attempt ::
  "'w linode_env \<Rightarrow> string \<Rightarrow> string \<Rightarrow> string \<Rightarrow> string \<Rightarrow> 'w client \<Rightarrow> go_error option \<times> 'w client" where
  "update_attempt env dbID dbName ip operation c =
     (case getCachedAllowList env dbID dbName c of
        (Inl err, c1) \<Rightarrow> (Some err, c1)
      | (Inr allowList, c1) \<Rightarrow>
          (case edit_ip_set operation ip (ip_set allowList) of
             (False, _) \<Rightarrow> (None, c1)
           | (True, ipSet) \<Rightarrow>
               (let newAllowList = sort (ip_order env ipSet)
                in case api_update env dbID newAllowList (world c1) of
                     (None, w2) \<Rightarrow>
                       (None,
                        invalidateCache dbID
                          (c1\<lparr>client_metrics := IncrementAllowListUpdates dbName operation (client_metrics c1),
                              world := w2\<rparr>))
                   | (Some err, w2) \<Rightarrow> (Some err, c1\<lparr>world := w2\<rparr>))))"

text \<open>The runtime of the retry loop, acting on the client's state.\<close>

definition lift_runtime :: "'w retry_env \<Rightarrow> 'w client retry_env" where
  "lift_runtime env =
     \<lparr>ctx_err = (\<lambda>c. ctx_err env (world c)),
      rand_float = (\<lambda>c. case rand_float env (world c) of (r, w) \<Rightarrow> (r, c\<lparr>world := w\<rparr>)),
      wait_backoff = (\<lambda>d c. case wait_backoff env d (world c) of (r, w) \<Rightarrow> (r, c\<lparr>world := w\<rparr>)),
      round64 = round64 env,
      overflow64 = overflow64 env\<rparr>"

definition updateDatabaseAllowList ::
  "'w linode_env \<Rightarrow> config \<Rightarrow> string \<Rightarrow> string \<Rightarrow> string \<Rightarrow> string \<Rightarrow> string \<Rightarrow> 'w client \<Rightarrow>
   go_error option \<times> 'w client" where
  "updateDatabaseAllowList env cfg dbID dbName nodeName ip operation c =
     (case clock_now env (world c) of
        (startTime, w0) \<Rightarrow>
          (case (case limiter_wait env w0 of
                   (Some err, w1) \<Rightarrow> (Some (''rate limiter error: '' @ err), c\<lparr>world := w1\<rparr>)
                 | (None, w1) \<Rightarrow>
                     RetryWithBackoff (lift_runtime (runtime env)) (Retry cfg)
                       (update_attempt env dbID dbName ip operation) (Some DefaultIsRetryable) (c\<lparr>world := w1\<rparr>))
           of (r, c1) \<Rightarrow>
             (case clock_now env (world c1) of
                (endTime, w2) \<Rightarrow>
                  (r, c1\<lparr>client_metrics :=
                           ObserveAllowListUpdateLatency dbName operation
                             (real_of_int (endTime - startTime) / real_of_int time_Second) (client_metrics c1),
                         world := w2\<rparr>))))"

definition handleAddOperation ::
  "'w linode_env \<Rightarrow> config \<Rightarrow> string \<Rightarrow> database list \<Rightarrow> string \<Rightarrow> string \<Rightarrow> 'w client \<Rightarrow>
   go_error option \<times> 'w client" where
  "handleAddOperation env cfg nodepoolName databases nodeName ip c =
     loop_last_err (\<lambda>db c. updateDatabaseAllowList env cfg (db_ID db) (db_Name db) nodeName ip ''add'' c)
       databases None c"

definition handleDeleteOperation ::
  "'w linode_env \<Rightarrow> config \<Rightarrow> string \<Rightarrow> database list \<Rightarrow> string \<Rightarrow> string \<Rightarrow> 'w client \<Rightarrow>
   go_error option \<times> 'w client" where
  "handleDeleteOperation env cfg nodepoolName databases nodeName ip c =
     loop_last_err (\<lambda>db c. updateDatabaseAllowList env cfg (db_ID db) (db_Name db) nodeName ip ''remove'' c)
       databases None (c\<lparr>client_metrics := UpdatePendingDeletions nodepoolName 0 (client_metrics c)\<rparr>)"

fun getDatabasesForNodepool :: "nodepool list \<Rightarrow> string \<Rightarrow> database list" where
  "getDatabasesForNodepool [] nodepoolName = []"
| "getDatabasesForNodepool (np # nps) nodepoolName =
     (if np_Name np = nodepoolName then np_Databases np else getDatabasesForNodepool nps nodepoolName)"

definition UpdateAllowList ::
  "'w linode_env \<Rightarrow> config \<Rightarrow> string \<Rightarrow> string \<Rightarrow> string \<Rightarrow> string \<Rightarrow> 'w client \<Rightarrow>
   go_error option \<times> 'w client" where
  "UpdateAllowList env cfg nodepoolName nodeName ip operation c =
     (let databases = getDatabasesForNodepool (Nodepools cfg) nodepoolName
      in if databases = []
         then (Some (''no databases configured for nodepool '' @ nodepoolName), c)
         else if operation = ''add''
         then handleAddOperation env cfg nodepoolName databases nodeName ip c
         else handleDeleteOperation env cfg nodepoolName databases nodeName ip c)"

end
