(* ===== verification/AllowListSpec.thy ===== *)
theory AllowListSpec
  imports LinodeClient
begin

text \<open>
  The contract of the allow-list client and the proof that it keeps it. What the client relies on
  in the outside world is \<open>api_laws\<close>: reading changes nothing and returns what is stored, a write
  that succeeds stores the list, a write that fails has stored it or has changed nothing, and nothing
  else the client calls touches the stored lists (\<open>C w\<close> maps the IDs of the existing databases to
  their stored lists). \<open>atomic_failures\<close> adds that a failed write changes nothing.
\<close>

type_synonym 'w stored = "'w \<Rightarrow> string \<rightharpoonup> string list"

definition api_laws :: "'w linode_env \<Rightarrow> 'w stored \<Rightarrow> bool" where
  "api_laws env C \<longleftrightarrow>
     (\<forall>db w r w'. api_get env db w = (r, w') \<longrightarrow> C w' = C w \<and> (\<forall>xs. r = Inr xs \<longrightarrow> C w db = Some xs)) \<and>
     (\<forall>db xs w r w'. api_update env db xs w = (r, w') \<longrightarrow>
        C w' = (C w)(db \<mapsto> xs) \<or> r \<noteq> None \<and> C w' = C w) \<and>
     (\<forall>w r w'. limiter_wait env w = (r, w') \<longrightarrow> C w' = C w) \<and>
     (\<forall>w r w'. clock_now env w = (r, w') \<longrightarrow> C w' = C w) \<and>
     (\<forall>w r w'. rand_float (runtime env) w = (r, w') \<longrightarrow> C w' = C w) \<and>
     (\<forall>d w r w'. wait_backoff (runtime env) d w = (r, w') \<longrightarrow> C w' = C w)"

definition atomic_failures :: "'w linode_env \<Rightarrow> 'w stored \<Rightarrow> bool" where
  "atomic_failures env C \<longleftrightarrow>
     (\<forall>db xs w e w'. api_update env db xs w = (Some e, w') \<longrightarrow> C w' = C w)"

lemma api_laws_frame:
  assumes "api_laws env C"
  shows "api_get env db w = (r, w') \<Longrightarrow> C w' = C w"
    and "limiter_wait env w = (r', w') \<Longrightarrow> C w' = C w"
    and "clock_now env w = (t, w') \<Longrightarrow> C w' = C w"
    and "rand_float (runtime env) w = (x, w') \<Longrightarrow> C w' = C w"
    and "wait_backoff (runtime env) d w = (r'', w') \<Longrightarrow> C w' = C w"
  using assms unfolding api_laws_def by metis+

lemma api_get_stored: "api_laws env C \<Longrightarrow> api_get env db w = (Inr xs, w') \<Longrightarrow> C w db = Some xs"
  unfolding api_laws_def by metis

lemma api_update_ok: "api_laws env C \<Longrightarrow> api_update env db xs w = (None, w') \<Longrightarrow> C w' = (C w)(db \<mapsto> xs)"
  unfolding api_laws_def by metis

lemma api_update_failed:
  "api_laws env C \<Longrightarrow> api_update env db xs w = (Some e, w') \<Longrightarrow> C w' = (C w)(db \<mapsto> xs) \<or> C w' = C w"
  unfolding api_laws_def by metis

section \<open>Entries\<close>

text \<open>The abstraction of an allow list: the set of its normalised entries.\<close>

definition entries :: "string list \<Rightarrow> string set" where
  "entries xs = normalizeIP ` set xs"

lemma ip_set_entries: "ip_set xs = entries xs"
  by (simp add: ip_set_def entries_def fold_insert_image)

lemma finite_entries [simp]: "finite (entries xs)"
  by (simp add: entries_def)

lemma entries_normal: "x \<in> entries xs \<Longrightarrow> normalizeIP x = x"
  by (auto simp: entries_def)

text \<open>What an operation makes of a set of entries, and when it has nothing to do.\<close>

definition edit :: "string \<Rightarrow> string \<Rightarrow> string set \<Rightarrow> string set" where
  "edit operation ip S =
     (if operation = ''add'' then insert (normalizeIP ip) S
      else if operation = ''remove'' then S - {normalizeIP ip} else S)"

lemma edit_ip_set_edit: "edit_ip_set operation ip S = (edit operation ip S \<noteq> S, edit operation ip S)"
  by (auto simp: edit_ip_set_def edit_def Let_def)

lemma edit_idem [simp]: "edit operation ip (edit operation ip S) = edit operation ip S"
  by (auto simp: edit_def)

lemma edit_others: "edit operation ip S - {normalizeIP ip} = S - {normalizeIP ip}"
  by (auto simp: edit_def)

lemma edit_cong: "S - {normalizeIP ip} = T - {normalizeIP ip} \<Longrightarrow> operation \<in> {''add'', ''remove''} \<Longrightarrow>
  edit operation ip S = edit operation ip T"
  by (auto simp: edit_def)

lemma edit_normal: "\<forall>x \<in> S. normalizeIP x = x \<Longrightarrow> \<forall>x \<in> edit operation ip S. normalizeIP x = x"
  by (auto simp: edit_def)

definition new_list :: "string \<Rightarrow> string \<Rightarrow> string list \<Rightarrow> string list" where
  "new_list operation ip xs = sorted_list_of_set (edit operation ip (entries xs))"

lemma finite_edit [simp]: "finite S \<Longrightarrow> finite (edit operation ip S)"
  by (simp add: edit_def)

lemma entries_new_list: "entries (new_list operation ip xs) = edit operation ip (entries xs)"
proof -
  have "\<forall>x \<in> edit operation ip (entries xs). normalizeIP x = x"
    by (rule edit_normal) (simp add: entries_normal)
  then have "normalizeIP ` edit operation ip (entries xs) = edit operation ip (entries xs)"
    by force
  then show ?thesis by (simp add: new_list_def entries_def [of "sorted_list_of_set _"])
qed

text \<open>The attempt, with the set computations replaced by their specification.\<close>

lemma update_attempt_alt:
  assumes "range_order_ok (ip_order env)"
  shows "update_attempt env db nm ip operation c =
    (case getCachedAllowList env db nm c of
       (Inl err, c1) \<Rightarrow> (Some err, c1)
     | (Inr xs, c1) \<Rightarrow>
         if edit operation ip (entries xs) = entries xs then (None, c1)
         else (case api_update env db (new_list operation ip xs) (world c1) of
                 (None, w2) \<Rightarrow>
                   (None, invalidateCache db
                      (c1\<lparr>client_metrics := IncrementAllowListUpdates nm operation (client_metrics c1), world := w2\<rparr>))
               | (Some err, w2) \<Rightarrow> (Some err, c1\<lparr>world := w2\<rparr>)))"
  using assms
  by (auto simp: update_attempt_def edit_ip_set_edit ip_set_entries new_list_def sort_range_order Let_def
      split: prod.splits sum.splits option.splits)

section \<open>Coherence of the cache\<close>

definition cache_ok :: "'w stored \<Rightarrow> 'w client \<Rightarrow> bool" where
  "cache_ok C c \<longleftrightarrow>
     (\<forall>db e. allowListCache c db = Some e \<longrightarrow> C (world c) db = Some (AllowList e))"

lemma cache_okD: "cache_ok C c \<Longrightarrow> allowListCache c db = Some e \<Longrightarrow> C (world c) db = Some (AllowList e)"
  by (simp add: cache_ok_def)

lemma cache_ok_world: "cache_ok C c \<Longrightarrow> C w = C (world c) \<Longrightarrow> cache_ok C (c\<lparr>world := w\<rparr>)"
  by (simp add: cache_ok_def)

lemma fetch_spec:
  assumes laws: "api_laws env C" and "fetchAndCacheAllowList env db nm c = (r, c1)"
  shows "C (world c1) = C (world c)"
    and "cache_ok C c \<Longrightarrow> cache_ok C c1"
    and "d \<noteq> db \<Longrightarrow> allowListCache c1 d = allowListCache c d"
    and "r \<noteq> None \<Longrightarrow> allowListCache c1 = allowListCache c \<and> client_metrics c1 = client_metrics c"
    and "r = None \<Longrightarrow> \<exists>e. allowListCache c1 db = Some e \<and> C (world c) db = Some (AllowList e)"
proof -
  obtain r1 w1 where l: "limiter_wait env (world c) = (r1, w1)" by fastforce
  obtain r2 w2 where g: "api_get env db w1 = (r2, w2)" by fastforce
  obtain now w3 where t: "clock_now env w2 = (now, w3)" by fastforce
  have w: "C w1 = C (world c)" "C w2 = C (world c)" "C w3 = C (world c)"
    using api_laws_frame(1-3) [OF laws] l g t by metis+
  have xs: "C (world c) db = Some xs" if "r2 = Inr xs" for xs
    using api_get_stored [OF laws] g that w(1) by metis
  have f: "(r, c1) =
    (case r1 of Some err \<Rightarrow> (Some (''rate limiter error: '' @ err), c\<lparr>world := w1\<rparr>)
     | None \<Rightarrow> (case r2 of Inl err \<Rightarrow> (Some err, c\<lparr>world := w2\<rparr>)
        | Inr xs \<Rightarrow> (None, c\<lparr>client_metrics := alert_open_access nm xs (client_metrics c),
            allowListCache := (allowListCache c)(db \<mapsto> \<lparr>AllowList = xs, LastFetched = now\<rparr>), world := w3\<rparr>)))"
    using assms(2) l g t by (simp add: fetchAndCacheAllowList_def split: option.splits sum.splits)
  show "C (world c1) = C (world c)"
    using f w by (auto split: option.splits sum.splits)
  show "cache_ok C c \<Longrightarrow> cache_ok C c1"
    using f w xs by (auto simp: cache_ok_def split: option.splits sum.splits if_splits)
  show "d \<noteq> db \<Longrightarrow> allowListCache c1 d = allowListCache c d"
    using f by (auto split: option.splits sum.splits)
  show "r \<noteq> None \<Longrightarrow> allowListCache c1 = allowListCache c \<and> client_metrics c1 = client_metrics c"
    using f by (auto split: option.splits sum.splits)
  show "r = None \<Longrightarrow> \<exists>e. allowListCache c1 db = Some e \<and> C (world c) db = Some (AllowList e)"
    using f xs by (auto split: option.splits sum.splits)
qed

lemma getCached_spec:
  assumes laws: "api_laws env C" and get: "getCachedAllowList env db nm c = (r, c1)"
  shows "C (world c1) = C (world c)"
    and "cache_ok C c \<Longrightarrow> cache_ok C c1"
    and "d \<noteq> db \<Longrightarrow> allowListCache c1 d = allowListCache c d"
    and "r = Inr xs \<Longrightarrow> \<exists>e. allowListCache c1 db = Some e \<and> AllowList e = xs \<and>
           (allowListCache c db = Some e \<or> C (world c) db = Some xs)"
    and "r = Inl err \<Longrightarrow> allowListCache c1 = allowListCache c"
    and "allowListCache c1 db = Some e \<Longrightarrow> allowListCache c db = Some e \<or> C (world c) db = Some (AllowList e)"
proof -
  obtain r' c' where f: "fetchAndCacheAllowList env db nm c = (r', c')" by fastforce
  note spec = fetch_spec [OF laws f]
  show "C (world c1) = C (world c)"
    using get f spec(1) by (auto simp: getCachedAllowList_def split: option.splits)
  show "cache_ok C c \<Longrightarrow> cache_ok C c1"
    using get f spec(2) by (auto simp: getCachedAllowList_def split: option.splits)
  show "d \<noteq> db \<Longrightarrow> allowListCache c1 d = allowListCache c d"
    using get f spec(3) by (auto simp: getCachedAllowList_def split: option.splits)
  show "r = Inr xs \<Longrightarrow> \<exists>e. allowListCache c1 db = Some e \<and> AllowList e = xs \<and>
      (allowListCache c db = Some e \<or> C (world c) db = Some xs)"
    using get f spec(5) by (fastforce simp: getCachedAllowList_def split: option.splits)
  show "r = Inl err \<Longrightarrow> allowListCache c1 = allowListCache c"
    using get f spec(4) by (auto simp: getCachedAllowList_def split: option.splits)
  show "allowListCache c1 db = Some e \<Longrightarrow> allowListCache c db = Some e \<or> C (world c) db = Some (AllowList e)"
    using get f spec(4,5) by (cases r') (fastforce simp: getCachedAllowList_def split: option.splits)+
qed

section \<open>One attempt\<close>

text \<open>
  The invariant of the attempts of one update of database \<open>db\<close>, started with the stored lists \<open>K\<close> and
  the cache \<open>M\<close>: either nothing is stored yet and what is cached is what is stored, or the edited list is
  stored and the cache holds the old or the new list; other databases have not moved. When failed
  writes are atomic the cache agrees with the stored list throughout.
\<close>

definition update_inv ::
  "'w linode_env \<Rightarrow> 'w stored \<Rightarrow> string \<Rightarrow> string \<Rightarrow> string \<Rightarrow> (string \<rightharpoonup> string list) \<Rightarrow>
   (string \<rightharpoonup> cache_entry) \<Rightarrow> 'w client \<Rightarrow> bool" where
  "update_inv env C db ip operation K M c \<longleftrightarrow>
     api_laws env C \<and> range_order_ok (ip_order env) \<and>
     (\<forall>d. d \<noteq> db \<longrightarrow> allowListCache c d = M d) \<and>
     (C (world c) = K \<and> (\<forall>e. allowListCache c db = Some e \<longrightarrow> K db = Some (AllowList e)) \<or>
      (\<exists>xs. K db = Some xs \<and> edit operation ip (entries xs) \<noteq> entries xs \<and>
         C (world c) = K(db \<mapsto> new_list operation ip xs) \<and>
         (\<forall>e. allowListCache c db = Some e \<longrightarrow> AllowList e \<in> {xs, new_list operation ip xs}))) \<and>
     (atomic_failures env C \<longrightarrow>
       (\<forall>e. allowListCache c db = Some e \<longrightarrow> C (world c) db = Some (AllowList e)))"

definition update_done ::
  "'w stored \<Rightarrow> string \<Rightarrow> string \<Rightarrow> string \<Rightarrow> (string \<rightharpoonup> string list) \<Rightarrow> 'w client \<Rightarrow> bool" where
  "update_done C db ip operation K c \<longleftrightarrow>
     (\<exists>xs. K db = Some xs \<and>
       C (world c) = (if edit operation ip (entries xs) = entries xs then K
                      else K(db \<mapsto> new_list operation ip xs))) \<and>
     (\<forall>e. allowListCache c db = Some e \<longrightarrow> C (world c) db = Some (AllowList e))"

lemma update_inv_world:
  "update_inv env C db ip operation K M c \<Longrightarrow> C w = C (world c) \<Longrightarrow>
   update_inv env C db ip operation K M (c\<lparr>world := w\<rparr>)"
  by (simp add: update_inv_def)

lemma update_inv_laws:
  "update_inv env C db ip operation K M c \<Longrightarrow> api_laws env C"
  "update_inv env C db ip operation K M c \<Longrightarrow> range_order_ok (ip_order env)"
  by (simp_all add: update_inv_def)

text \<open>Reading the list, from the cache or from the service, keeps the invariant.\<close>

lemma update_inv_getCached:
  assumes inv: "update_inv env C db ip operation K M c"
    and get: "getCachedAllowList env db nm c = (r, c1)"
  shows "update_inv env C db ip operation K M c1"
proof -
  note laws = update_inv_laws(1) [OF inv]
  note spec = getCached_spec [OF laws get]
  have others: "\<forall>d. d \<noteq> db \<longrightarrow> allowListCache c1 d = M d"
    using inv spec(3) by (simp add: update_inv_def)
  have atomic: "atomic_failures env C \<longrightarrow>
      (\<forall>e. allowListCache c1 db = Some e \<longrightarrow> C (world c1) db = Some (AllowList e))"
    using inv spec(1) spec(6) unfolding update_inv_def by metis
  have "C (world c1) = K \<and> (\<forall>e. allowListCache c1 db = Some e \<longrightarrow> K db = Some (AllowList e)) \<or>
      (\<exists>xs. K db = Some xs \<and> edit operation ip (entries xs) \<noteq> entries xs \<and>
         C (world c1) = K(db \<mapsto> new_list operation ip xs) \<and>
         (\<forall>e. allowListCache c1 db = Some e \<longrightarrow> AllowList e \<in> {xs, new_list operation ip xs}))"
  proof (cases "C (world c) = K \<and> (\<forall>e. allowListCache c db = Some e \<longrightarrow> K db = Some (AllowList e))")
    case True
    then show ?thesis using spec(1) spec(6) by metis
  next
    case False
    then obtain xs where xs: "K db = Some xs" "edit operation ip (entries xs) \<noteq> entries xs"
      "C (world c) = K(db \<mapsto> new_list operation ip xs)"
      "\<forall>e. allowListCache c db = Some e \<longrightarrow> AllowList e \<in> {xs, new_list operation ip xs}"
      using inv unfolding update_inv_def by blast
    have "AllowList e \<in> {xs, new_list operation ip xs}" if "allowListCache c1 db = Some e" for e
      using spec(6) [OF that] xs(3,4) by auto
    then show ?thesis using xs spec(1) by metis
  qed
  then show ?thesis using inv others atomic unfolding update_inv_def by blast
qed

text \<open>What a cached list can be: the list the update started from, or its edit once that is stored.\<close>

lemma update_inv_read:
  assumes inv: "update_inv env C db ip operation K M c"
    and get: "getCachedAllowList env db nm c = (Inr ys, c1)"
  obtains xs e where "K db = Some xs" and "allowListCache c1 db = Some e" and "AllowList e = ys"
    and "ys = xs \<or> edit operation ip (entries xs) \<noteq> entries xs \<and> ys = new_list operation ip xs \<and>
           C (world c1) = K(db \<mapsto> new_list operation ip xs)"
    and "C (world c1) = K \<or> edit operation ip (entries xs) \<noteq> entries xs \<and>
           C (world c1) = K(db \<mapsto> new_list operation ip xs)"
proof -
  note spec = getCached_spec [OF update_inv_laws(1) [OF inv] get]
  obtain e where e: "allowListCache c1 db = Some e" "AllowList e = ys" using spec(4) by blast
  from update_inv_getCached [OF inv get] e show ?thesis
    unfolding update_inv_def by (auto intro: that)
qed

lemma new_list_cong: "entries xs = entries ys \<Longrightarrow> new_list operation ip xs = new_list operation ip ys"
  by (simp add: new_list_def)

lemma update_attempt_spec:
  assumes inv: "update_inv env C db ip operation K M c"
    and att: "update_attempt env db nm ip operation c = (r, c')"
  shows "update_inv env C db ip operation K M c' \<and> (r = None \<longrightarrow> update_done C db ip operation K c')"
proof -
  note laws = update_inv_laws(1) [OF inv]
  obtain g c1 where get: "getCachedAllowList env db nm c = (g, c1)" by fastforce
  note inv1 = update_inv_getCached [OF inv get]
  note att' = att [unfolded update_attempt_alt [OF update_inv_laws(2) [OF inv]] get]
  show ?thesis
  proof (cases g)
    case (Inl err)
    then show ?thesis using att' inv1 by auto
  next
    case (Inr ys)
    note get' = get [unfolded Inr]
    obtain xs e where xs: "K db = Some xs" and e: "allowListCache c1 db = Some e" "AllowList e = ys"
      and ys: "ys = xs \<or> edit operation ip (entries xs) \<noteq> entries xs \<and> ys = new_list operation ip xs \<and>
           C (world c1) = K(db \<mapsto> new_list operation ip xs)"
      and K: "C (world c1) = K \<or> edit operation ip (entries xs) \<noteq> entries xs \<and>
           C (world c1) = K(db \<mapsto> new_list operation ip xs)"
      by (rule update_inv_read [OF inv get'])
    show ?thesis
    proof (cases "edit operation ip (entries ys) = entries ys")
      case True
      then have "r = None" "c' = c1" using att' Inr by auto
      moreover have "update_done C db ip operation K c1"
        using ys
      proof
        assume "ys = xs"
        then show ?thesis using K xs True e by (auto simp: update_done_def)
      next
        assume new: "edit operation ip (entries xs) \<noteq> entries xs \<and> ys = new_list operation ip xs \<and>
          C (world c1) = K(db \<mapsto> new_list operation ip xs)"
        then have "C (world c1) db = Some (new_list operation ip xs)" by simp
        then show ?thesis using new xs e unfolding update_done_def by auto
      qed
      ultimately show ?thesis using inv1 by simp
    next
      case False
      then have new: "edit operation ip (entries xs) \<noteq> entries xs" "ys = xs"
        using ys by (auto simp: entries_new_list)
      obtain u w2 where u: "api_update env db (new_list operation ip xs) (world c1) = (u, w2)" by fastforce
      have stored: "(C (world c1))(db \<mapsto> new_list operation ip xs) = K(db \<mapsto> new_list operation ip xs)"
        using K by auto
      show ?thesis
      proof (cases u)
        case None
        have w2: "C w2 = K(db \<mapsto> new_list operation ip xs)"
          using api_update_ok [OF laws] u None stored by metis
        have "r = None" and c': "c' = invalidateCache db
          (c1\<lparr>client_metrics := IncrementAllowListUpdates nm operation (client_metrics c1), world := w2\<rparr>)"
          using att' Inr False u None new by auto
        moreover have "update_done C db ip operation K c'"
          using w2 xs new by (auto simp: update_done_def c' invalidateCache_def)
        moreover have "update_inv env C db ip operation K M c'"
          using inv1 w2 xs new unfolding update_inv_def c' invalidateCache_def by auto
        ultimately show ?thesis by simp
      next
        case (Some err)
        then have c': "r = Some err" "c' = c1\<lparr>world := w2\<rparr>" using att' Inr False u new by auto
        have "C w2 = C (world c1) \<or> C w2 = K(db \<mapsto> new_list operation ip xs) \<and> \<not> atomic_failures env C"
          using api_update_failed [OF laws] u Some stored unfolding atomic_failures_def by metis
        moreover have "update_inv env C db ip operation K M (c1\<lparr>world := w2\<rparr>)"
          if "C w2 = K(db \<mapsto> new_list operation ip xs)" "\<not> atomic_failures env C"
        proof -
          have "AllowList e \<in> {xs, new_list operation ip xs}" if "allowListCache c1 db = Some e" for e
            using inv1 that xs unfolding update_inv_def by fastforce
          then show ?thesis using inv1 that xs new unfolding update_inv_def by simp
        qed
        ultimately show ?thesis using c' update_inv_world [OF inv1] by auto
      qed
    qed
  qed
qed

text \<open>The attempt is a retryable function with this invariant, and success means the edit is stored.\<close>

interpretation upd: retryable
  "update_attempt env db nm ip operation" "lift_runtime (runtime env)"
  "update_inv env C db ip operation K M" "update_done C db ip operation K"
  for env :: "'w linode_env" and db nm ip operation and C :: "'w stored" and K M
proof unfold_locales
  fix c c' :: "'w client" and d
  assume inv: "update_inv env C db ip operation K M c"
  note frame = api_laws_frame(4,5) [OF update_inv_laws(1) [OF inv]]
  show "update_inv env C db ip operation K M (snd (update_attempt env db nm ip operation c))"
    using update_attempt_spec [OF inv] by (metis prod.collapse)
  show "update_attempt env db nm ip operation c = (None, c') \<Longrightarrow> update_done C db ip operation K c'"
    using update_attempt_spec [OF inv] by blast
  show "update_inv env C db ip operation K M (snd (rand_float (lift_runtime (runtime env)) c))"
    using update_inv_world [OF inv] frame(1) by (auto simp: lift_runtime_def split: prod.splits)
  show "update_inv env C db ip operation K M (snd (wait_backoff (lift_runtime (runtime env)) d c))"
    using update_inv_world [OF inv] frame(2) by (auto simp: lift_runtime_def split: prod.splits)
qed

section \<open>One update\<close>

text \<open>The state of one database in the course of updates of the same address.\<close>

definition db_inv :: "'w stored \<Rightarrow> string \<Rightarrow> string \<Rightarrow> string \<Rightarrow> string list option \<Rightarrow> 'w client \<Rightarrow> bool" where
  "db_inv C db ip operation k c \<longleftrightarrow>
     C (world c) db = k \<and> (\<forall>e. allowListCache c db = Some e \<longrightarrow> k = Some (AllowList e)) \<or>
     (\<exists>xs. k = Some xs \<and> edit operation ip (entries xs) \<noteq> entries xs \<and>
        C (world c) db = Some (new_list operation ip xs) \<and>
        (\<forall>e. allowListCache c db = Some e \<longrightarrow> AllowList e \<in> {xs, new_list operation ip xs}))"

definition db_done :: "'w stored \<Rightarrow> string \<Rightarrow> string \<Rightarrow> string \<Rightarrow> string list option \<Rightarrow> 'w client \<Rightarrow> bool" where
  "db_done C db ip operation k c \<longleftrightarrow>
     (\<exists>xs. k = Some xs \<and> C (world c) db =
        Some (if edit operation ip (entries xs) = entries xs then xs else new_list operation ip xs)) \<and>
     (\<forall>e. allowListCache c db = Some e \<longrightarrow> C (world c) db = Some (AllowList e))"

definition env_ok :: "'w linode_env \<Rightarrow> 'w stored \<Rightarrow> bool" where
  "env_ok env C \<longleftrightarrow> api_laws env C \<and> range_order_ok (ip_order env)"

lemma update_inv_start:
  assumes "env_ok env C" and "db_inv C db ip operation k c" and "atomic_failures env C \<longrightarrow> cache_ok C c"
  shows "update_inv env C db ip operation ((C (world c))(db := k)) (allowListCache c) c"
  using assms unfolding env_ok_def db_inv_def update_inv_def cache_ok_def by fastforce

text \<open>
  One call of \<^verbatim>\<open>updateDatabaseAllowList\<close>, whatever fails: other databases are as they were, stored and
  cached; the database is as the invariant says; a call that returns \<^verbatim>\<open>nil\<close> has done the edit.
\<close>

lemma updateDatabaseAllowList_spec:
  assumes env: "env_ok env C" and inv: "db_inv C db ip operation k c"
    and atomic: "atomic_failures env C \<longrightarrow> cache_ok C c"
    and run: "updateDatabaseAllowList env cfg db nm node ip operation c = (r, c')"
  shows "d \<noteq> db \<Longrightarrow> C (world c') d = C (world c) d"
    and "d \<noteq> db \<Longrightarrow> allowListCache c' d = allowListCache c d"
    and "db_inv C db ip operation k c'"
    and "atomic_failures env C \<Longrightarrow> cache_ok C c'"
    and "r = None \<Longrightarrow> 0 < MaxAttempts (Retry cfg) \<Longrightarrow> db_done C db ip operation k c'"
proof -
  let ?K = "(C (world c))(db := k)" let ?M = "allowListCache c"
  have laws: "api_laws env C" using env by (simp add: env_ok_def)
  note frame = api_laws_frame [OF laws]
  obtain t0 w0 where t0: "clock_now env (world c) = (t0, w0)" by fastforce
  obtain l w1 where l: "limiter_wait env w0 = (l, w1)" by fastforce
  have w1: "C w1 = C (world c)" using frame(2) [OF l] frame(3) [OF t0] by simp
  note inv1 = update_inv_world [OF update_inv_start [OF env inv atomic] w1]
  obtain q c1 where q: "RetryWithBackoff (lift_runtime (runtime env)) (Retry cfg)
      (update_attempt env db nm ip operation) (Some DefaultIsRetryable) (c\<lparr>world := w1\<rparr>) = (q, c1)" by fastforce
  define c2 where "c2 = (if l = None then c1 else c\<lparr>world := w1\<rparr>)"
  obtain t1 w2 where t1: "clock_now env (world c2) = (t1, w2)" by fastforce
  have w2: "C w2 = C (world c2)" using frame(3) [OF t1] .
  have c': "r = (case l of None \<Rightarrow> q | Some err \<Rightarrow> Some (''rate limiter error: '' @ err))"
    "world c' = w2" "allowListCache c' = allowListCache c2"
    using run t0 l q t1 by (auto simp: updateDatabaseAllowList_def c2_def split: option.splits)
  have inv2: "update_inv env C db ip operation ?K ?M c2"
    using upd.RetryWithBackoff_inv [OF inv1 q] inv1 by (simp add: c2_def)
  have inv': "update_inv env C db ip operation ?K ?M c'"
    using update_inv_world [OF inv2 w2] c' unfolding update_inv_def by simp
  show cache: "d \<noteq> db \<Longrightarrow> allowListCache c' d = allowListCache c d" for d
    using inv' by (simp add: update_inv_def)
  show other: "d \<noteq> db \<Longrightarrow> C (world c') d = C (world c) d" for d
    using inv' unfolding update_inv_def by auto
  show "db_inv C db ip operation k c'"
    using inv' unfolding update_inv_def db_inv_def by (elim conjE disjE exE) auto
  show "cache_ok C c'" if "atomic_failures env C"
    using inv' atomic other cache that unfolding update_inv_def cache_ok_def by metis
  show "db_done C db ip operation k c'" if "r = None" "0 < MaxAttempts (Retry cfg)"
  proof -
    have "q = None" and "l = None" using that c'(1) by (auto split: option.splits)
    then have "update_done C db ip operation ?K c2"
      using upd.RetryWithBackoff_goal [OF inv1 that(2)] q by (simp add: c2_def)
    then obtain xs where xs: "k = Some xs" and stored: "C w2 =
        (if edit operation ip (entries xs) = entries xs then ?K else ?K(db \<mapsto> new_list operation ip xs))"
      and coherent: "\<forall>e. allowListCache c' db = Some e \<longrightarrow> C w2 db = Some (AllowList e)"
      using w2 c' unfolding update_done_def by auto
    have "C w2 db = Some (if edit operation ip (entries xs) = entries xs then xs else new_list operation ip xs)"
      unfolding stored by (simp add: xs)
    then show ?thesis using xs coherent c'(2) unfolding db_done_def by auto
  qed
qed

text \<open>The edit, once done, is not undone by another update of the same address.\<close>

lemma db_done_stable:
  assumes env: "env_ok env C" and dn: "db_done C db ip operation k c"
    and atomic: "atomic_failures env C \<longrightarrow> cache_ok C c"
    and run: "updateDatabaseAllowList env cfg db' nm node ip operation c = (r, c')"
    and inv: "db_inv C db' ip operation k' c"
  shows "db_done C db ip operation k c'"
proof (cases "db' = db")
  case False
  then show ?thesis
    using dn updateDatabaseAllowList_spec(1,2) [OF env inv atomic run] by (simp add: db_done_def)
next
  case True
  obtain xs where xs: "k = Some xs" and stored: "C (world c) db =
      Some (if edit operation ip (entries xs) = entries xs then xs else new_list operation ip xs)"
    using dn by (auto simp: db_done_def)
  have "db_inv C db ip operation (C (world c) db) c" using dn by (auto simp: db_inv_def db_done_def)
  then have "db_inv C db ip operation (C (world c) db) c'"
    using updateDatabaseAllowList_spec(3) [OF env _ atomic run] True by simp
  then show ?thesis
    unfolding stored db_inv_def by (auto simp: db_done_def xs entries_new_list split: if_splits)
qed

end
