(* ===== verification/AllowListUpdate.thy ===== *)
theory AllowListUpdate
  imports AllowListSpec
begin

text \<open>
  \<^verbatim>\<open>UpdateAllowList\<close> over the databases of a nodepool: the loop of updates as a whole, and what it
  promises its caller.
\<close>

section \<open>The loop over the databases\<close>

definition pool_inv ::
  "'w linode_env \<Rightarrow> 'w stored \<Rightarrow> string set \<Rightarrow> string \<Rightarrow> string \<Rightarrow> (string \<rightharpoonup> string list) \<Rightarrow>
   (string \<rightharpoonup> cache_entry) \<Rightarrow> 'w client \<Rightarrow> bool" where
  "pool_inv env C D ip operation K M c \<longleftrightarrow>
     (\<forall>d \<in> D. db_inv C d ip operation (K d) c) \<and>
     (\<forall>d. d \<notin> D \<longrightarrow> C (world c) d = K d \<and> allowListCache c d = M d) \<and>
     (atomic_failures env C \<longrightarrow> cache_ok C c)"

lemma pool_inv_start:
  "cache_ok C c \<Longrightarrow> pool_inv env C D ip operation (C (world c)) (allowListCache c) c"
  by (auto simp: pool_inv_def db_inv_def cache_ok_def)

lemma db_inv_frame:
  "C (world c') d = C (world c) d \<Longrightarrow> allowListCache c' d = allowListCache c d \<Longrightarrow>
   db_inv C d ip operation k c' = db_inv C d ip operation k c"
  by (simp add: db_inv_def)

lemma pool_inv_update:
  assumes env: "env_ok env C" and inv: "pool_inv env C D ip operation K M c" and db: "db \<in> D"
    and run: "updateDatabaseAllowList env cfg db nm node ip operation c = (r, c')"
  shows "pool_inv env C D ip operation K M c'"
proof -
  have "db_inv C db ip operation (K db) c" and "atomic_failures env C \<longrightarrow> cache_ok C c"
    using inv db by (simp_all add: pool_inv_def)
  note spec = updateDatabaseAllowList_spec [OF env this run]
  have "db_inv C d ip operation (K d) c'" if "d \<in> D" for d
  proof (cases "d = db")
    case True
    then show ?thesis using spec(3) by simp
  next
    case False
    have "db_inv C d ip operation (K d) c" using that inv by (simp add: pool_inv_def)
    then show ?thesis using db_inv_frame [of C c' d c, OF spec(1,2) [OF False]] by simp
  qed
  moreover have "C (world c') d = K d \<and> allowListCache c' d = M d" if "d \<notin> D" for d
  proof -
    have "d \<noteq> db" using that db by blast
    then show ?thesis using spec(1,2) that inv by (simp add: pool_inv_def)
  qed
  ultimately show ?thesis using spec(4) by (simp add: pool_inv_def)
qed

lemma databases_loop:
  fixes dbs :: "database list" and env :: "'w linode_env"
  assumes env: "env_ok env C" and inv: "pool_inv env C (db_ID ` set dbs) ip operation K M c"
    and run: "loop_last_err (\<lambda>db. updateDatabaseAllowList env cfg (db_ID db) (db_Name db) node ip operation)
      dbs None c = (r, c')"
  shows "pool_inv env C (db_ID ` set dbs) ip operation K M c'"
    and "r = None \<Longrightarrow> 0 < MaxAttempts (Retry cfg) \<Longrightarrow>
      \<forall>db \<in> set dbs. db_done C (db_ID db) ip operation (K (db_ID db)) c'"
proof -
  let ?I = "pool_inv env C (db_ID ` set dbs) ip operation K M"
  let ?op = "\<lambda>db. updateDatabaseAllowList env cfg (db_ID db) (db_Name db) node ip operation"
  have keep: "?I (snd (?op db s))" if "db \<in> set dbs" "?I s" for db s
    using pool_inv_update [OF env that(2)] that(1) by (metis imageI prod.collapse)
  have parts: "db_inv C (db_ID db) ip operation (K (db_ID db)) s" "atomic_failures env C \<longrightarrow> cache_ok C s"
    if "db \<in> set dbs" "?I s" for db s
    using that by (auto simp: pool_inv_def)
  show "?I c'"
    using loop_last_err_inv [of ?I c dbs ?op None, OF inv keep] run by simp
  show "\<forall>db \<in> set dbs. db_done C (db_ID db) ip operation (K (db_ID db)) c'"
    if "r = None" and attempts: "0 < MaxAttempts (Retry cfg)"
  proof (rule loop_last_err_goal [of ?op dbs c c' ?I])
    show "loop_last_err ?op dbs None c = (None, c')" using run that(1) by simp
    show "?I c" by (rule inv)
    show "\<And>x s. x \<in> set dbs \<Longrightarrow> ?I s \<Longrightarrow> ?I (snd (?op x s))" by (rule keep)
    show "db_done C (db_ID x) ip operation (K (db_ID x)) s'"
      if "x \<in> set dbs" "?I s" "?op x s = (None, s')" for x s s'
      using updateDatabaseAllowList_spec(5) [OF env parts [OF that(1,2)] that(3)] attempts by blast
    show "db_done C (db_ID x) ip operation (K (db_ID x)) (snd (?op y s))"
      if "x \<in> set dbs" "y \<in> set dbs" "?I s" "db_done C (db_ID x) ip operation (K (db_ID x)) s" for x y s
      using db_done_stable [OF env that(4) parts(2) [OF that(2,3)] _ parts(1) [OF that(2,3)]]
      by (metis prod.collapse)
  qed
qed

text \<open>The operation \<^verbatim>\<open>UpdateAllowList\<close> performs, whatever word it is given.\<close>

definition effective_op :: "string \<Rightarrow> string" where
  "effective_op operation = (if operation = ''add'' then ''add'' else ''remove'')"

lemma UpdateAllowList_loop:
  assumes "dbs = getDatabasesForNodepool (Nodepools cfg) np" and "dbs \<noteq> []"
  shows "\<exists>m. UpdateAllowList env cfg np node ip operation c =
    loop_last_err (\<lambda>db. updateDatabaseAllowList env cfg (db_ID db) (db_Name db) node ip (effective_op operation))
      dbs None (c\<lparr>client_metrics := m\<rparr>)"
  using assms
  by (auto simp: UpdateAllowList_def effective_op_def handleAddOperation_def handleDeleteOperation_def Let_def
      intro: exI [of _ "client_metrics c"])

lemma pool_inv_metrics: "pool_inv env C D ip operation K M (c\<lparr>client_metrics := m\<rparr>) =
    pool_inv env C D ip operation K M c"
  by (simp add: pool_inv_def db_inv_def cache_ok_def)

definition pool_dbs :: "config \<Rightarrow> string \<Rightarrow> string set" where
  "pool_dbs cfg np = db_ID ` set (getDatabasesForNodepool (Nodepools cfg) np)"

lemma UpdateAllowList_spec:
  assumes env: "env_ok env C" and inv: "pool_inv env C (pool_dbs cfg np) ip (effective_op operation) K M c"
    and run: "UpdateAllowList env cfg np node ip operation c = (r, c')"
  shows "pool_inv env C (pool_dbs cfg np) ip (effective_op operation) K M c'"
    and "r = None \<Longrightarrow> 0 < MaxAttempts (Retry cfg) \<Longrightarrow> d \<in> pool_dbs cfg np \<Longrightarrow>
      db_done C d ip (effective_op operation) (K d) c'"
proof -
  let ?dbs = "getDatabasesForNodepool (Nodepools cfg) np"
  have *: "pool_inv env C (pool_dbs cfg np) ip (effective_op operation) K M c' \<and>
    (r = None \<longrightarrow> 0 < MaxAttempts (Retry cfg) \<longrightarrow>
      (\<forall>db \<in> set ?dbs. db_done C (db_ID db) ip (effective_op operation) (K (db_ID db)) c'))"
  proof (cases "?dbs = []")
    case True
    then show ?thesis using run inv by (auto simp: UpdateAllowList_def)
  next
    case False
    from UpdateAllowList_loop [OF refl this] obtain m where "UpdateAllowList env cfg np node ip operation c =
        loop_last_err (\<lambda>db. updateDatabaseAllowList env cfg (db_ID db) (db_Name db) node ip (effective_op operation))
          ?dbs None (c\<lparr>client_metrics := m\<rparr>)" by blast
    with run have "loop_last_err (\<lambda>db. updateDatabaseAllowList env cfg (db_ID db) (db_Name db) node ip
        (effective_op operation)) ?dbs None (c\<lparr>client_metrics := m\<rparr>) = (r, c')" by simp
    from databases_loop [OF env _ this] show ?thesis
      using inv by (auto simp: pool_dbs_def pool_inv_metrics)
  qed
  then show "pool_inv env C (pool_dbs cfg np) ip (effective_op operation) K M c'" by blast
  show "r = None \<Longrightarrow> 0 < MaxAttempts (Retry cfg) \<Longrightarrow> d \<in> pool_dbs cfg np \<Longrightarrow>
      db_done C d ip (effective_op operation) (K d) c'"
    using * by (auto simp: pool_dbs_def)
qed

section \<open>Outlasting transient failures\<close>

text \<open>
  Failures that pass: the context stays live, the limiter always admits, and every failed call
  on a database that exists uses up some of a finite amount of trouble, which nothing adds to.
\<close>

definition transient :: "'w linode_env \<Rightarrow> 'w stored \<Rightarrow> ('w \<Rightarrow> nat) \<Rightarrow> bool" where
  "transient env C trouble \<longleftrightarrow>
     (\<forall>db w r w'. api_get env db w = (r, w') \<longrightarrow> trouble w' \<le> trouble w \<and>
        (\<forall>e. r = Inl e \<longrightarrow> C w db \<noteq> None \<longrightarrow> trouble w' < trouble w)) \<and>
     (\<forall>db xs w r w'. api_update env db xs w = (r, w') \<longrightarrow> trouble w' \<le> trouble w \<and>
        (r \<noteq> None \<longrightarrow> C w db \<noteq> None \<longrightarrow> trouble w' < trouble w)) \<and>
     (\<forall>w r w'. limiter_wait env w = (r, w') \<longrightarrow> r = None \<and> trouble w' \<le> trouble w) \<and>
     (\<forall>w t w'. clock_now env w = (t, w') \<longrightarrow> trouble w' \<le> trouble w) \<and>
     (\<forall>w. ctx_err (runtime env) w = None) \<and>
     (\<forall>w x w'. rand_float (runtime env) w = (x, w') \<longrightarrow> trouble w' \<le> trouble w) \<and>
     (\<forall>d w r w'. wait_backoff (runtime env) d w = (r, w') \<longrightarrow> r = None \<and> trouble w' \<le> trouble w)"

lemma transientD:
  assumes "transient env C trouble"
  shows "api_get env db w = (g, w') \<Longrightarrow> trouble w' \<le> trouble w"
    and "api_get env db w = (Inl e, w') \<Longrightarrow> C w db \<noteq> None \<Longrightarrow> trouble w' < trouble w"
    and "api_update env db xs w = (r, w') \<Longrightarrow> trouble w' \<le> trouble w"
    and "api_update env db xs w = (Some e, w') \<Longrightarrow> C w db \<noteq> None \<Longrightarrow> trouble w' < trouble w"
    and "limiter_wait env w = (r, w') \<Longrightarrow> r = None \<and> trouble w' \<le> trouble w"
    and "clock_now env w = (t, w') \<Longrightarrow> trouble w' \<le> trouble w"
    and "ctx_err (runtime env) w = None"
    and "rand_float (runtime env) w = (x, w') \<Longrightarrow> trouble w' \<le> trouble w"
    and "wait_backoff (runtime env) d w = (r, w') \<Longrightarrow> r = None \<and> trouble w' \<le> trouble w"
  using assms unfolding transient_def by (metis option.distinct(1))+

lemma getCached_trouble:
  assumes laws: "api_laws env C" and tr: "transient env C trouble"
    and get: "getCachedAllowList env db nm c = (g, c1)"
  shows "trouble (world c1) \<le> trouble (world c)"
    and "g = Inl e \<Longrightarrow> C (world c) db \<noteq> None \<Longrightarrow> trouble (world c1) < trouble (world c)"
proof -
  note d = transientD [OF tr]
  obtain l w1 where l: "limiter_wait env (world c) = (l, w1)" by fastforce
  obtain q w2 where q: "api_get env db w1 = (q, w2)" by fastforce
  obtain t w3 where t: "clock_now env w2 = (t, w3)" by fastforce
  have l0: "l = None" and t1: "trouble w1 \<le> trouble (world c)" using d(5) [OF l] by auto
  have t2: "trouble w2 \<le> trouble w1" using d(1) [OF q] .
  have t3: "trouble w3 \<le> trouble w2" using d(6) [OF t] .
  have C1: "C w1 = C (world c)" using api_laws_frame(2) [OF laws l] .
  show "trouble (world c1) \<le> trouble (world c)"
    using get l q t l0 t1 t2 t3
    by (auto simp: getCachedAllowList_def fetchAndCacheAllowList_def split: option.splits sum.splits)
  show "trouble (world c1) < trouble (world c)" if "g = Inl e" and stored: "C (world c) db \<noteq> None"
  proof -
    have "\<exists>e'. q = Inl e' \<and> world c1 = w2"
      using get l q t l0 that(1)
      by (auto simp: getCachedAllowList_def fetchAndCacheAllowList_def split: option.splits sum.splits)
    then show ?thesis using d(2) [of db w1 _ w2] q C1 stored t1 by auto
  qed
qed

lemma update_attempt_trouble:
  assumes inv: "update_inv env C db ip operation K M c" and tr: "transient env C trouble"
    and k: "K db \<noteq> None" and att: "update_attempt env db nm ip operation c = (r, c')"
  shows "trouble (world c') \<le> trouble (world c)"
    and "r = Some e \<Longrightarrow> trouble (world c') < trouble (world c)"
proof -
  obtain g c1 where get: "getCachedAllowList env db nm c = (g, c1)" by fastforce
  have "C (world c) db \<noteq> None" using inv k by (auto simp: update_inv_def)
  note t1 = getCached_trouble [OF update_inv_laws(1) [OF inv] tr get]
  note att' = att [unfolded update_attempt_alt [OF update_inv_laws(2) [OF inv]] get]
  have *: "trouble (world c') \<le> trouble (world c) \<and> (r \<noteq> None \<longrightarrow> trouble (world c') < trouble (world c))"
  proof (cases g)
    case (Inl err)
    then show ?thesis using att' t1 \<open>C (world c) db \<noteq> None\<close> by auto
  next
    case (Inr ys)
    obtain u w2 where u: "api_update env db (new_list operation ip ys) (world c1) = (u, w2)" by fastforce
    have "C (world c1) db \<noteq> None" using update_inv_getCached [OF inv get] k by (auto simp: update_inv_def)
    then have "trouble w2 \<le> trouble (world c1)" "u \<noteq> None \<longrightarrow> trouble w2 < trouble (world c1)"
      using transientD(3,4) [OF tr] u by auto
    then show ?thesis using att' Inr u t1(1)
      by (auto simp: invalidateCache_def split: if_splits option.splits)
  qed
  then show "trouble (world c') \<le> trouble (world c)" by blast
  show "r = Some e \<Longrightarrow> trouble (world c') < trouble (world c)" using * by simp
qed

interpretation upd_live: retryable_transient
  "update_attempt env db nm ip operation" "lift_runtime (runtime env)"
  "\<lambda>c. update_inv env C db ip operation K M c \<and> transient env C trouble \<and> K db \<noteq> None"
  "update_done C db ip operation K" "\<lambda>c. trouble (world c)"
  for env :: "'w linode_env" and db nm ip operation and C :: "'w stored" and K M trouble
proof (unfold_locales, goal_cases)
  case (1 c)
  then show ?case using upd.attempt_inv by blast
next
  case (2 c c')
  then show ?case using upd.attempt_goal by blast
next
  case (3 c)
  then show ?case using upd.rand_inv by blast
next
  case (4 c d)
  then show ?case using upd.wait_inv by blast
next
  case (5 c)
  then show ?case using update_attempt_trouble(1) by (metis prod.collapse)
next
  case (6 c e c')
  then show ?case using update_attempt_trouble(2) by metis
next
  case (7 c)
  then show ?case using transientD(7) [of env C trouble "world c"] by (simp add: lift_runtime_def)
next
  case (8 c)
  then show ?case using transientD(8) [of env C trouble "world c"]
    by (auto simp: lift_runtime_def split: prod.splits)
next
  case (9 c d)
  then show ?case using transientD(9) [of env C trouble d "world c"]
    by (auto simp: lift_runtime_def split: prod.splits)
next
  case (10 c d)
  then show ?case using transientD(9) [of env C trouble d "world c"]
    by (auto simp: lift_runtime_def split: prod.splits)
qed

lemma updateDatabaseAllowList_live:
  assumes env: "env_ok env C" and inv: "db_inv C db ip operation k c"
    and atomic: "atomic_failures env C \<longrightarrow> cache_ok C c"
    and tr: "transient env C trouble" and k: "k \<noteq> None"
    and few: "int (trouble (world c)) < MaxAttempts (Retry cfg)"
    and run: "updateDatabaseAllowList env cfg db nm node ip operation c = (r, c')"
  shows "r = None" and "trouble (world c') \<le> trouble (world c)"
proof -
  let ?K = "(C (world c))(db := k)" let ?M = "allowListCache c"
  have laws: "api_laws env C" using env by (simp add: env_ok_def)
  note d = transientD [OF tr]
  obtain t0 w0 where t0: "clock_now env (world c) = (t0, w0)" by fastforce
  obtain l w1 where l: "limiter_wait env w0 = (l, w1)" by fastforce
  have w1: "C w1 = C (world c)" using api_laws_frame(2) [OF laws l] api_laws_frame(3) [OF laws t0] by simp
  have l0: "l = None" and t1: "trouble w1 \<le> trouble (world c)" using d(5) [OF l] d(6) [OF t0] by auto
  have inv1: "update_inv env C db ip operation ?K ?M (c\<lparr>world := w1\<rparr>) \<and> transient env C trouble \<and> ?K db \<noteq> None"
    using update_inv_world [OF update_inv_start [OF env inv atomic] w1] tr k by simp
  obtain q c1 where q: "RetryWithBackoff (lift_runtime (runtime env)) (Retry cfg)
      (update_attempt env db nm ip operation) (Some DefaultIsRetryable) (c\<lparr>world := w1\<rparr>) = (q, c1)" by fastforce
  have out: "q = None" "trouble (world c1) \<le> trouble w1"
    using upd_live.RetryWithBackoff_outlasts(1,2) [OF inv1 _ _ q] few t1 by (auto simp: DefaultIsRetryable_def)
  obtain t w2 where t: "clock_now env (world c1) = (t, w2)" by fastforce
  have "r = q" and "world c' = w2"
    using run t0 l l0 q t by (auto simp: updateDatabaseAllowList_def)
  then show "r = None" and "trouble (world c') \<le> trouble (world c)"
    using out t1 d(6) [OF t] by auto
qed

lemma UpdateAllowList_lives:
  assumes env: "env_ok env C" and cache: "cache_ok C c" and tr: "transient env C trouble"
    and dbs: "getDatabasesForNodepool (Nodepools cfg) np \<noteq> []"
    and exist: "\<forall>d \<in> pool_dbs cfg np. C (world c) d \<noteq> None"
    and few: "int (trouble (world c)) < MaxAttempts (Retry cfg)"
  shows "fst (UpdateAllowList env cfg np node ip operation c) = None \<and>
    trouble (world (snd (UpdateAllowList env cfg np node ip operation c))) \<le> trouble (world c)"
proof -
  let ?dbs = "getDatabasesForNodepool (Nodepools cfg) np"
  let ?K = "C (world c)" let ?M = "allowListCache c"
  let ?op = "\<lambda>db. updateDatabaseAllowList env cfg (db_ID db) (db_Name db) node ip (effective_op operation)"
  from UpdateAllowList_loop [OF refl dbs] obtain m where m: "UpdateAllowList env cfg np node ip operation c =
      loop_last_err ?op ?dbs None (c\<lparr>client_metrics := m\<rparr>)" by blast
  let ?P = "\<lambda>ys s. pool_inv env C (pool_dbs cfg np) ip (effective_op operation) ?K ?M s \<and>
    trouble (world s) \<le> trouble (world c)"
  have "\<exists>s'. loop_last_err ?op ?dbs None (c\<lparr>client_metrics := m\<rparr>) = (None, s') \<and> ?P ?dbs s'"
  proof (rule loop_last_err_success)
    show "?P [] (c\<lparr>client_metrics := m\<rparr>)" using pool_inv_start [OF cache] by (simp add: pool_inv_metrics)
    fix ys db zs s
    assume split: "?dbs = ys @ db # zs" and P: "?P ys s"
    have db: "db_ID db \<in> pool_dbs cfg np" by (simp add: pool_dbs_def split)
    obtain r s' where run: "?op db s = (r, s')" by fastforce
    have inv: "db_inv C (db_ID db) ip (effective_op operation) (?K (db_ID db)) s"
      and atomic: "atomic_failures env C \<longrightarrow> cache_ok C s"
      using P db by (simp_all add: pool_inv_def)
    have "?K (db_ID db) \<noteq> None" "int (trouble (world s)) < MaxAttempts (Retry cfg)"
      using exist db few P by auto
    note live = updateDatabaseAllowList_live [OF env inv atomic tr this run]
    show "fst (?op db s) = None \<and> ?P (ys @ [db]) (snd (?op db s))"
      using live pool_inv_update [OF env conjunct1 [OF P] db run] P run by auto
  qed
  then show ?thesis using m by auto
qed

lemmas UpdateAllowList_live = UpdateAllowList_lives [THEN conjunct1]
lemmas UpdateAllowList_live_trouble = UpdateAllowList_lives [THEN conjunct2]

section \<open>What does not matter\<close>

text \<open>Reading depends neither on the iteration order nor on the write, pausing on neither.\<close>

lemma fetch_frame [frame_simps]:
  "fetchAndCacheAllowList (env\<lparr>ip_order := ord\<rparr>) = fetchAndCacheAllowList env"
  "fetchAndCacheAllowList (env\<lparr>api_update := f\<rparr>) = fetchAndCacheAllowList env"
  by (intro ext, simp add: fetchAndCacheAllowList_def cong: case_congs)+

lemma getCached_frame [frame_simps]:
  "getCachedAllowList (env\<lparr>ip_order := ord\<rparr>) = getCachedAllowList env"
  "getCachedAllowList (env\<lparr>api_update := f\<rparr>) = getCachedAllowList env"
  by (intro ext, simp add: getCachedAllowList_def frame_simps cong: case_congs)+

lemma update_frame [frame_simps]:
  "runtime (env\<lparr>ip_order := ord\<rparr>) = runtime env"
  "runtime (env\<lparr>api_update := f\<rparr>) = runtime env"
  by simp_all

text \<open>The order in which Go visits the set of entries leaves no trace.\<close>

lemma update_attempt_order:
  assumes "range_order_ok (ip_order env)" and "range_order_ok ord"
  shows "update_attempt (env\<lparr>ip_order := ord\<rparr>) db nm ip operation = update_attempt env db nm ip operation"
proof
  fix c
  show "update_attempt (env\<lparr>ip_order := ord\<rparr>) db nm ip operation c = update_attempt env db nm ip operation c"
    using assms by (simp add: update_attempt_alt frame_simps cong: case_congs)
qed

lemma updateDatabaseAllowList_order:
  assumes "range_order_ok (ip_order env)" and "range_order_ok ord"
  shows "updateDatabaseAllowList (env\<lparr>ip_order := ord\<rparr>) = updateDatabaseAllowList env"
  by (intro ext) (simp add: updateDatabaseAllowList_def update_attempt_order [OF assms] frame_simps
      cong: case_congs)

text \<open>A client whose databases already show the edit does not write: the service's write is never called.\<close>

definition settled :: "'w stored \<Rightarrow> string \<Rightarrow> string \<Rightarrow> string \<Rightarrow> 'w client \<Rightarrow> bool" where
  "settled C db ip operation c \<longleftrightarrow>
     (\<forall>xs. C (world c) db = Some xs \<longrightarrow> edit operation ip (entries xs) = entries xs)"

lemma update_attempt_settled:
  assumes env: "env_ok env C" and cache: "cache_ok C c" and quiet: "settled C db ip operation c"
  shows "update_attempt (env\<lparr>api_update := f\<rparr>) db nm ip operation c = update_attempt env db nm ip operation c"
    and "cache_ok C (snd (update_attempt env db nm ip operation c)) \<and>
      C (world (snd (update_attempt env db nm ip operation c))) = C (world c)"
proof -
  have laws: "api_laws env C" and ord: "range_order_ok (ip_order env)" using env by (simp_all add: env_ok_def)
  obtain g c1 where get: "getCachedAllowList env db nm c = (g, c1)" by fastforce
  note spec = getCached_spec [OF laws get]
  have get': "getCachedAllowList (env\<lparr>api_update := f\<rparr>) db nm c = (g, c1)"
    using get by (simp add: frame_simps)
  have "edit operation ip (entries xs) = entries xs" if "g = Inr xs" for xs
    using spec(4) [OF that] quiet cache_okD [OF cache] unfolding settled_def by blast
  then show "update_attempt (env\<lparr>api_update := f\<rparr>) db nm ip operation c = update_attempt env db nm ip operation c"
    and "cache_ok C (snd (update_attempt env db nm ip operation c)) \<and>
      C (world (snd (update_attempt env db nm ip operation c))) = C (world c)"
    using update_attempt_alt [of env, OF ord] update_attempt_alt [of "env\<lparr>api_update := f\<rparr>"] ord get get'
      spec(1,2) cache
    by (auto split: sum.splits)
qed

definition settled_inv :: "'w linode_env \<Rightarrow> 'w stored \<Rightarrow> (string \<rightharpoonup> string list) \<Rightarrow> 'w client \<Rightarrow> bool" where
  "settled_inv env C K c \<longleftrightarrow> env_ok env C \<and> cache_ok C c \<and> C (world c) = K"

lemma settled_inv_world: "settled_inv env C K c \<Longrightarrow> C w = C (world c) \<Longrightarrow> settled_inv env C K (c\<lparr>world := w\<rparr>)"
  by (simp add: settled_inv_def cache_ok_world)

lemma settled_attempt_inv:
  assumes "settled_inv env C K c" and quiet: "\<forall>xs. K db = Some xs \<longrightarrow> edit operation ip (entries xs) = entries xs"
  shows "settled_inv env C K (snd (update_attempt env db nm ip operation c))"
    and "update_attempt (env\<lparr>api_update := f\<rparr>) db nm ip operation c = update_attempt env db nm ip operation c"
  using update_attempt_settled [where env = env and C = C and c = c and db = db and ip = ip and
      operation = operation and nm = nm] assms
  by (simp_all add: settled_inv_def settled_def)

lemma settled_runtime:
  assumes "settled_inv env C K c"
  shows "settled_inv env C K (snd (rand_float (lift_runtime (runtime env)) c))"
    and "settled_inv env C K (snd (wait_backoff (lift_runtime (runtime env)) d c))"
proof -
  have laws: "api_laws env C" using assms by (simp add: settled_inv_def env_ok_def)
  show "settled_inv env C K (snd (rand_float (lift_runtime (runtime env)) c))"
    using settled_inv_world [OF assms] api_laws_frame(4) [OF laws]
    by (auto simp: lift_runtime_def split: prod.splits)
  show "settled_inv env C K (snd (wait_backoff (lift_runtime (runtime env)) d c))"
    using settled_inv_world [OF assms] api_laws_frame(5) [OF laws]
    by (auto simp: lift_runtime_def split: prod.splits)
qed

interpretation quiet_retry: retryable
  "update_attempt env db nm ip operation" "lift_runtime (runtime env)"
  "\<lambda>c. settled_inv env C K c \<and> (\<forall>xs. K db = Some xs \<longrightarrow> edit operation ip (entries xs) = entries xs)"
  "settled_inv env C K"
  for env :: "'w linode_env" and db nm ip operation and C :: "'w stored" and K
  by unfold_locales (metis settled_attempt_inv(1) snd_conv, metis settled_attempt_inv(1) snd_conv,
      simp add: settled_runtime, simp add: settled_runtime)

lemma updateDatabaseAllowList_settled:
  assumes inv: "settled_inv env C K c"
    and quiet: "\<forall>xs. K db = Some xs \<longrightarrow> edit operation ip (entries xs) = entries xs"
  shows "updateDatabaseAllowList (env\<lparr>api_update := f\<rparr>) cfg db nm node ip operation c =
      updateDatabaseAllowList env cfg db nm node ip operation c"
    and "settled_inv env C K (snd (updateDatabaseAllowList env cfg db nm node ip operation c))"
proof -
  have laws: "api_laws env C" using inv by (simp add: settled_inv_def env_ok_def)
  let ?fn = "update_attempt env db nm ip operation" and ?rt = "lift_runtime (runtime env)"
  obtain t0 w0 where t0: "clock_now env (world c) = (t0, w0)" by fastforce
  obtain l w1 where l: "limiter_wait env w0 = (l, w1)" by fastforce
  let ?c1 = "c\<lparr>world := w1\<rparr>"
  have inv1: "settled_inv env C K ?c1"
    using settled_inv_world [OF inv] api_laws_frame(2) [OF laws l] api_laws_frame(3) [OF laws t0] by simp
  have agree: "RetryWithBackoff ?rt (Retry cfg) (update_attempt (env\<lparr>api_update := f\<rparr>) db nm ip operation)
      (Some DefaultIsRetryable) ?c1 = RetryWithBackoff ?rt (Retry cfg) ?fn (Some DefaultIsRetryable) ?c1"
    unfolding RetryWithBackoff_def
    by (rule retry_loop_cong [of "settled_inv env C K", OF inv1])
      (simp_all add: settled_attempt_inv [where db = db and K = K and C = C] quiet settled_runtime)
  obtain q c2 where q: "RetryWithBackoff ?rt (Retry cfg) ?fn (Some DefaultIsRetryable) ?c1 = (q, c2)" by fastforce
  have inv2: "settled_inv env C K c2"
    using quiet_retry.RetryWithBackoff_inv [OF _ q] inv1 quiet by blast
  show "updateDatabaseAllowList (env\<lparr>api_update := f\<rparr>) cfg db nm node ip operation c =
      updateDatabaseAllowList env cfg db nm node ip operation c"
    using t0 l agree by (simp add: updateDatabaseAllowList_def frame_simps split: option.splits)
  obtain t w2 where t: "clock_now env (world (if l = None then c2 else ?c1)) = (t, w2)" by fastforce
  show "settled_inv env C K (snd (updateDatabaseAllowList env cfg db nm node ip operation c))"
    using t0 l q t inv1 inv2 api_laws_frame(3) [OF laws t]
    by (auto simp: updateDatabaseAllowList_def settled_inv_def cache_ok_def split: option.splits)
qed

end
