(* ===== verification/AllowListProps.thy ===== *)
theory AllowListProps
  imports AllowListUpdate
begin

text \<open>
  The properties of the allow-list client, with a small world to apply them to: stored lists, and a
  script of what happens to the next writes.
\<close>

section \<open>A concrete world\<close>

text \<open>
  \<open>dw_script\<close>: the outcomes of the coming writes, \<open>None\<close> for success and \<open>Some (e, applied)\<close> for a
  failure that was applied all the same, or was not; when it is used up writes succeed.
\<close>

record demo_world =
  dw_stored :: "string \<rightharpoonup> string list"
  dw_script :: "(go_error \<times> bool) option list"

definition demo_get :: "string \<Rightarrow> demo_world \<Rightarrow> string list result \<times> demo_world" where
  "demo_get db w = (case dw_stored w db of None \<Rightarrow> (Inl ''[404] Not found'', w) | Some xs \<Rightarrow> (Inr xs, w))"

definition demo_update :: "string \<Rightarrow> string list \<Rightarrow> demo_world \<Rightarrow> go_error option \<times> demo_world" where
  "demo_update db xs w =
     (let stored = w\<lparr>dw_stored := (dw_stored w)(db \<mapsto> xs)\<rparr>
      in case dw_script w of
           [] \<Rightarrow> (None, stored)
         | None # rest \<Rightarrow> (None, stored\<lparr>dw_script := rest\<rparr>)
         | Some (e, applied) # rest \<Rightarrow> (Some e, (if applied then stored else w)\<lparr>dw_script := rest\<rparr>))"

definition demo_runtime :: "'w retry_env" where
  "demo_runtime =
     \<lparr>ctx_err = (\<lambda>_. None), rand_float = (\<lambda>w. (0, w)), wait_backoff = (\<lambda>_ w. (None, w)),
      round64 = (\<lambda>x. x), overflow64 = (\<lambda>_. 0)\<rparr>"

definition demo_env :: "demo_world linode_env" where
  "demo_env =
     \<lparr>api_get = demo_get, api_update = demo_update, limiter_wait = (\<lambda>w. (None, w)),
      clock_now = (\<lambda>w. (0, w)), runtime = demo_runtime,
      ip_order = sorted_list_of_set, db_order = sorted_list_of_set\<rparr>"

definition demo_pools :: config where
  "demo_pools = DefaultConfig\<lparr>Nodepools :=
     [\<lparr>np_Name = ''prod'', np_Databases = [\<lparr>db_ID = ''101'', db_Name = ''orders''\<rparr>]\<rparr>]\<rparr>"

definition demo_client :: "string list \<Rightarrow> (go_error \<times> bool) option list \<Rightarrow> demo_world client" where
  "demo_client xs script = NewClientWithAPI [] \<lparr>dw_stored = [''101'' \<mapsto> xs], dw_script = script\<rparr>"

lemma demo_update_laws:
  assumes "demo_update db xs w = (r, w')"
  shows "dw_stored w' = (dw_stored w)(db \<mapsto> xs) \<or> r \<noteq> None \<and> dw_stored w' = dw_stored w"
    and "length (dw_script w') \<le> length (dw_script w)"
    and "r \<noteq> None \<Longrightarrow> length (dw_script w') < length (dw_script w)"
  using assms by (auto simp: demo_update_def Let_def split: list.splits option.splits if_splits)

lemma demo_env_ok: "env_ok demo_env dw_stored"
  using demo_update_laws(1)
  by (auto simp: env_ok_def api_laws_def demo_env_def demo_runtime_def demo_get_def
      range_order_sorted_list_of_set split: option.splits)

lemma demo_transient: "transient demo_env dw_stored (\<lambda>w. length (dw_script w))"
  using demo_update_laws(2,3)
  by (auto simp: transient_def demo_env_def demo_runtime_def demo_get_def split: option.splits)

lemma demo_cache_ok: "cache_ok dw_stored (demo_client xs script)"
  by (simp add: cache_ok_def demo_client_def NewClientWithAPI_def)

lemma demo_client_stored: "dw_stored (world (demo_client xs script)) = [''101'' \<mapsto> xs]"
  by (simp add: demo_client_def NewClientWithAPI_def)

lemma demo_pool_dbs: "pool_dbs demo_pools ''prod'' = {''101''}"
  by (simp add: pool_dbs_def demo_pools_def)

lemma demo_attempts: "MaxAttempts (Retry demo_pools) = 5"
  by (simp add: demo_pools_def DefaultConfig_def)

lemma demo_databases: "getDatabasesForNodepool (Nodepools demo_pools) ''prod'' \<noteq> []"
  by (simp add: demo_pools_def)

lemma demo_normal:
  "normalizeIP ''192.0.2.9'' = ''192.0.2.9/32''" "normalizeIP ''10.0.0.0/8'' = ''10.0.0.0/8''"
  by (simp_all add: normalizeIP_def)

lemma demo_success:
  assumes "length script < 5"
  shows "fst (UpdateAllowList demo_env demo_pools ''prod'' node ip operation (demo_client xs script)) = None"
proof (rule UpdateAllowList_live [OF demo_env_ok demo_cache_ok demo_transient demo_databases])
  show "\<forall>d \<in> pool_dbs demo_pools ''prod''. dw_stored (world (demo_client xs script)) d \<noteq> None"
    by (simp add: demo_pool_dbs demo_client_stored)
  show "int (length (dw_script (world (demo_client xs script)))) < MaxAttempts (Retry demo_pools)"
    using assms by (simp add: demo_client_def NewClientWithAPI_def demo_attempts)
qed

lemma demo_script_short: "length [x :: (go_error \<times> bool) option] < 5"
  by simp

lemma pool_not_configured: "np \<notin> np_Name ` set nps \<Longrightarrow> getDatabasesForNodepool nps np = []"
  by (induction nps) auto

lemma first_pool_counts: "np \<notin> np_Name ` set before \<Longrightarrow>
  getDatabasesForNodepool (before @ \<lparr>np_Name = np, np_Databases = dbs\<rparr> # after) np = dbs"
  by (induction before) auto

lemma updateDatabaseAllowList_cfg:
  "updateDatabaseAllowList env (cfg\<lparr>Nodepools := nps\<rparr>) = updateDatabaseAllowList env cfg"
  by (intro ext) (simp add: updateDatabaseAllowList_def cong: case_congs)

lemma UpdateAllowList_loops:
  fixes c :: "'w client"
  assumes "dbs = getDatabasesForNodepool (Nodepools cfg) np" and "dbs \<noteq> []"
  shows "\<exists>m. \<forall>env :: 'w linode_env. UpdateAllowList env cfg np node ip operation c =
    loop_last_err (\<lambda>db. updateDatabaseAllowList env cfg (db_ID db) (db_Name db) node ip (effective_op operation))
      dbs None (c\<lparr>client_metrics := m\<rparr>)"
  using assms
  by (auto simp: UpdateAllowList_def effective_op_def handleAddOperation_def handleDeleteOperation_def Let_def
      intro: exI [of _ "client_metrics c"])

text \<open>The databases \<^verbatim>\<open>InitializeCache\<close> visits are those of all nodepools.\<close>

definition configured_ids :: "config \<Rightarrow> string set" where
  "configured_ids cfg = (\<Union>np \<in> set (Nodepools cfg). db_ID ` set (np_Databases np))"

lemma fold_pool_dbs_keys:
  "fst ` set (fold (\<lambda>db. AList.update (db_ID db) (db_Name db)) dbs m) = fst ` set m \<union> db_ID ` set dbs"
  by (induction dbs arbitrary: m) (auto simp: dom_update)

lemma configured_dbs_keys: "fst ` set (configured_dbs cfg) = configured_ids cfg"
proof -
  have "fst ` set (fold (\<lambda>np m. fold (\<lambda>db m. AList.update (db_ID db) (db_Name db) m) (np_Databases np) m) nps m) =
      fst ` set m \<union> (\<Union>np \<in> set nps. db_ID ` set (np_Databases np))" for nps m
    by (induction nps arbitrary: m) (auto simp: fold_pool_dbs_keys)
  from this [of "Nodepools cfg" "[]"] show ?thesis by (simp add: configured_dbs_def configured_ids_def)
qed

lemma InitializeCache_spec:
  assumes laws: "api_laws env C" and ord: "range_order_ok (db_order env)"
    and run: "InitializeCache env cfg c = (r, c')"
  shows "C (world c') = C (world c)"
    and "cache_ok C c \<Longrightarrow> cache_ok C c'"
    and "d \<notin> configured_ids cfg \<Longrightarrow> allowListCache c' d = allowListCache c d"
    and "r = None \<Longrightarrow> \<forall>d \<in> configured_ids cfg.
      \<exists>e. allowListCache c' d = Some e \<and> C (world c) d = Some (AllowList e)"
proof -
  let ?op = "\<lambda>dbID. fetchAndCacheAllowList env dbID (the (map_of (configured_dbs cfg) dbID))"
  let ?ids = "db_order env (configured_ids cfg)"
  have ids: "set ?ids = configured_ids cfg"
    using ord by (simp add: configured_ids_def)
  have run': "loop_last_err ?op ?ids None c = (r, c')"
    using run by (simp add: InitializeCache_def Let_def configured_dbs_keys)
  let ?I = "\<lambda>s. C (world s) = C (world c) \<and> (cache_ok C c \<longrightarrow> cache_ok C s) \<and>
    (\<forall>d. d \<notin> configured_ids cfg \<longrightarrow> allowListCache s d = allowListCache c d)"
  have keep: "?I (snd (?op x s))" if "x \<in> set ?ids" "?I s" for x s
  proof -
    obtain q s' where q: "?op x s = (q, s')" by fastforce
    note f = fetch_spec [OF laws q]
    have "C (world s') = C (world c)" using f(1) that(2) by simp
    moreover have "cache_ok C c \<longrightarrow> cache_ok C s'" using f(2) that(2) by blast
    moreover have "allowListCache s' d = allowListCache c d" if "d \<notin> configured_ids cfg" for d
    proof -
      have "d \<noteq> x" using that \<open>x \<in> set ?ids\<close> unfolding ids by blast
      moreover have "allowListCache s d = allowListCache c d" using \<open>?I s\<close> that by blast
      ultimately show ?thesis using f(3) by simp
    qed
    ultimately show ?thesis using q by simp
  qed
  have "?I (snd (loop_last_err ?op ?ids None c))"
    by (rule loop_last_err_inv [of ?I, OF _ keep]) simp
  then have "?I c'" unfolding run' snd_conv .
  then show "C (world c') = C (world c)" and "cache_ok C c \<Longrightarrow> cache_ok C c'"
    and "d \<notin> configured_ids cfg \<Longrightarrow> allowListCache c' d = allowListCache c d" by blast+
  let ?Q = "\<lambda>d s. \<exists>e. allowListCache s d = Some e \<and> C (world c) d = Some (AllowList e)"
  have goal: "?Q x s'" if "?I s" "?op x s = (None, s')" for x s s'
    using fetch_spec(5) [OF laws that(2)] that(1) by auto
  have stable: "?Q x (snd (?op y s))" if "?I s" "?Q x s" for x y s
  proof -
    obtain q s' where q: "?op y s = (q, s')" by fastforce
    show ?thesis using fetch_spec(3,4,5) [OF laws q] that by (cases "x = y"; cases q) (auto simp: q)
  qed
  show "\<forall>d \<in> configured_ids cfg. ?Q d c'" if "r = None"
  proof -
    have "\<forall>d \<in> set ?ids. ?Q d c'"
    proof (rule loop_last_err_goal [of ?op ?ids c c' ?I])
      show "loop_last_err ?op ?ids None c = (None, c')" using run' that by simp
      show "?I c" by simp
      show "\<And>x s. x \<in> set ?ids \<Longrightarrow> ?I s \<Longrightarrow> ?I (snd (?op x s))" by (rule keep)
      show "\<And>x s s'. ?I s \<Longrightarrow> ?op x s = (None, s') \<Longrightarrow> ?Q x s'" by (rule goal)
      show "\<And>x y s. ?I s \<Longrightarrow> ?Q x s \<Longrightarrow> ?Q x (snd (?op y s))" by (rule stable)
    qed
    then show ?thesis unfolding ids .
  qed
qed

text \<open>The alert is raised once per open entry.\<close>

definition open_entry :: "string \<Rightarrow> bool" where
  "open_entry entry \<longleftrightarrow> entry \<in> {''0.0.0.0/0'', ''::/0''}"

lemma alert_open_access_counter:
  "counter_value (alert_open_access nm xs m) ''allow_list_open_access_alerts_total'' [nm] =
     counter_value m ''allow_list_open_access_alerts_total'' [nm] + length (filter open_entry xs)"
  unfolding alert_open_access_def
  by (induction xs arbitrary: m) (auto simp: open_entry_def IncrementAllowListOpenAccessAlerts_def)

text \<open>What the adapter relies on in \<^verbatim>\<open>linodego\<close>: the laws of \<open>api_laws\<close>, for numeric IDs.\<close>

definition service_laws :: "'w mysql_service \<Rightarrow> ('w \<Rightarrow> int \<rightharpoonup> string list) \<Rightarrow> bool" where
  "service_laws svc S \<longleftrightarrow>
     (\<forall>n w r w'. GetMySQLDatabase svc n w = (r, w') \<longrightarrow> S w' = S w \<and> (\<forall>xs. r = Inr xs \<longrightarrow> S w n = Some xs)) \<and>
     (\<forall>n xs w r w'. UpdateMySQLDatabase svc n xs w = (r, w') \<longrightarrow>
        S w' = (S w)(n \<mapsto> xs) \<or> r \<noteq> None \<and> S w' = S w)"

definition demo_service :: "(int \<rightharpoonup> string list) mysql_service" where
  "demo_service =
     \<lparr>GetMySQLDatabase = (\<lambda>n w. (case w n of None \<Rightarrow> Inl ''[404] Not found'' | Some xs \<Rightarrow> Inr xs, w)),
      UpdateMySQLDatabase = (\<lambda>n xs w. (None, w(n \<mapsto> xs)))\<rparr>"

lemma demo_service_laws: "service_laws demo_service (\<lambda>w. w)"
  by (auto simp: service_laws_def demo_service_def split: option.splits)

definition flaky_client :: "demo_world client" where
  "flaky_client = demo_client [''10.0.0.0/8''] (replicate 5 (Some (''timeout'', True)))"

definition flaky_add :: "go_error option \<times> demo_world client" where
  "flaky_add = UpdateAllowList demo_env demo_pools ''prod'' ''node-1'' ''192.0.2.9'' ''add'' flaky_client"

definition flaky_delete :: "go_error option \<times> demo_world client" where
  "flaky_delete = UpdateAllowList demo_env demo_pools ''prod'' ''node-1'' ''192.0.2.9'' ''delete'' (snd flaky_add)"

text \<open>What one call of \<^verbatim>\<open>UpdateAllowList\<close> stores.\<close>

lemma UpdateAllowList_stored:
  assumes "env_ok env C" and "cache_ok C c" and "0 < MaxAttempts (Retry cfg)"
    and run: "UpdateAllowList env cfg np node ip operation c = (r, c')"
  shows "(\<forall>d. d \<notin> pool_dbs cfg np \<longrightarrow> C (world c') d = C (world c) d) \<and>
    (\<forall>d. C (world c') d = C (world c) d \<or>
      (\<exists>xs. C (world c) d = Some xs \<and> C (world c') d = Some (new_list (effective_op operation) ip xs))) \<and>
    (r = None \<longrightarrow> (\<forall>d \<in> pool_dbs cfg np. \<exists>xs. C (world c) d = Some xs \<and>
      C (world c') d = Some (if edit (effective_op operation) ip (entries xs) = entries xs then xs
                             else new_list (effective_op operation) ip xs))) \<and>
    (atomic_failures env C \<longrightarrow> cache_ok C c')"
proof -
  note spec = UpdateAllowList_spec [OF assms(1) pool_inv_start [OF assms(2)] run]
  have "C (world c') d = C (world c) d \<or>
      (\<exists>xs. C (world c) d = Some xs \<and> C (world c') d = Some (new_list (effective_op operation) ip xs))" for d
    using spec(1) unfolding pool_inv_def db_inv_def by (cases "d \<in> pool_dbs cfg np") blast+
  then show ?thesis
    using spec(1) spec(2) [OF _ assms(3)] unfolding pool_inv_def db_done_def by blast
qed

section \<open>Properties\<close>

text \<open>
  C1. \<^verbatim>\<open>UpdateAllowList\<close> under any failures of the service, the limiter and the context: a database that
  is not configured for the nodepool is untouched; a configured one holds its old list or the edited
  one, and nothing else; a call that returns \<^verbatim>\<open>nil\<close> has stored the edit in every configured database
  (and left alone those that already showed it); when failed writes change nothing, the cache agrees
  with the service before and after.
\<close>

theorem UpdateAllowList_contract:
  assumes "env_ok env C" and "cache_ok C c" and "0 < MaxAttempts (Retry cfg)"
    and run: "UpdateAllowList env cfg np node ip operation c = (r, c')"
  shows "(\<forall>d. d \<notin> pool_dbs cfg np \<longrightarrow> C (world c') d = C (world c) d) \<and>
    (\<forall>d. C (world c') d = C (world c) d \<or>
      (\<exists>xs. C (world c) d = Some xs \<and> C (world c') d = Some (new_list (effective_op operation) ip xs))) \<and>
    (r = None \<longrightarrow> (\<forall>d \<in> pool_dbs cfg np. \<exists>xs. C (world c) d = Some xs \<and>
      C (world c') d = Some (if edit (effective_op operation) ip (entries xs) = entries xs then xs
                             else new_list (effective_op operation) ip xs))) \<and>
    (atomic_failures env C \<longrightarrow> cache_ok C c')"
  by (rule UpdateAllowList_stored [OF assms])

theorem UpdateAllowList_contract_witness:
  "\<exists>r c'. UpdateAllowList demo_env demo_pools ''prod'' ''node-1'' ''192.0.2.9'' ''add''
        (demo_client [''10.0.0.0/8''] [Some (''timeout'', True)]) = (r, c') \<and>
      dw_stored (world c') ''999'' = None"
proof -
  obtain r c' where run: "UpdateAllowList demo_env demo_pools ''prod'' ''node-1'' ''192.0.2.9'' ''add''
      (demo_client [''10.0.0.0/8''] [Some (''timeout'', True)]) = (r, c')" by fastforce
  have "0 < MaxAttempts (Retry demo_pools)" by (simp add: demo_attempts)
  from UpdateAllowList_contract [OF demo_env_ok demo_cache_ok this run] run show ?thesis
    by (auto simp: demo_pool_dbs demo_client_stored)
qed

text \<open>
  C7. What the edit means for the addresses: after a successful \<^verbatim>\<open>"add"\<close> the list of every configured
  database holds exactly the addresses it held and the normalised address; after any other operation
  it holds exactly the addresses it held except the normalised address.
\<close>

theorem UpdateAllowList_effect:
  assumes "env_ok env C" and "cache_ok C c" and "0 < MaxAttempts (Retry cfg)"
    and run: "UpdateAllowList env cfg np node ip operation c = (None, c')" and "d \<in> pool_dbs cfg np"
  shows "\<exists>xs ys. C (world c) d = Some xs \<and> C (world c') d = Some ys \<and>
    normalizeIP ` set ys = (if operation = ''add'' then insert (normalizeIP ip) (normalizeIP ` set xs)
                            else normalizeIP ` set xs - {normalizeIP ip})"
proof -
  note spec = UpdateAllowList_spec(2) [OF assms(1) pool_inv_start [OF assms(2)] run refl assms(3,5)]
  let ?op = "effective_op operation"
  obtain xs where xs: "C (world c) d = Some xs" and ys: "C (world c') d =
      Some (if edit ?op ip (entries xs) = entries xs then xs else new_list ?op ip xs)"
    using spec by (auto simp: db_done_def)
  define zs where "zs = (if edit ?op ip (entries xs) = entries xs then xs else new_list ?op ip xs)"
  have "entries zs = edit ?op ip (entries xs)" by (simp add: zs_def entries_new_list)
  then have "normalizeIP ` set zs = (if operation = ''add'' then insert (normalizeIP ip) (normalizeIP ` set xs)
      else normalizeIP ` set xs - {normalizeIP ip})"
    by (simp add: entries_def edit_def effective_op_def)
  then show ?thesis using xs ys zs_def by blast
qed

theorem UpdateAllowList_effect_witness:
  "\<exists>ys. dw_stored (world (snd (UpdateAllowList demo_env demo_pools ''prod'' ''node-1'' ''192.0.2.9'' ''delete''
       (demo_client [''10.0.0.0/8'', ''192.0.2.9''] [Some (''timeout'', True)])))) ''101'' = Some ys \<and>
     normalizeIP ` set ys = {''10.0.0.0/8''}"
proof -
  let ?c = "demo_client [''10.0.0.0/8'', ''192.0.2.9''] [Some (''timeout'', True)]"
  obtain c' where run: "UpdateAllowList demo_env demo_pools ''prod'' ''node-1'' ''192.0.2.9'' ''delete'' ?c = (None, c')"
    using demo_success [of "[Some (''timeout'', True)]"] by (metis demo_script_short prod.collapse)
  have "0 < MaxAttempts (Retry demo_pools)" and "''101'' \<in> pool_dbs demo_pools ''prod''"
    by (simp_all add: demo_attempts demo_pool_dbs)
  from UpdateAllowList_effect [OF demo_env_ok demo_cache_ok this(1) run this(2)] run show ?thesis
    by (auto simp: demo_client_stored demo_normal)
qed

text \<open>
  C11. Transient failures are masked: if the context stays live and fewer calls to the service fail
  than \<^verbatim>\<open>MaxAttempts\<close> allows, then \<^verbatim>\<open>UpdateAllowList\<close> for a nodepool whose databases exist returns \<^verbatim>\<open>nil\<close>,
  with the edit stored in all of them.
\<close>

theorem UpdateAllowList_outlasts_transient_failures:
  assumes "env_ok env C" and "cache_ok C c" and "transient env C trouble"
    and "getDatabasesForNodepool (Nodepools cfg) np \<noteq> []"
    and "\<forall>d \<in> pool_dbs cfg np. C (world c) d \<noteq> None"
    and "int (trouble (world c)) < MaxAttempts (Retry cfg)"
  shows "\<exists>c'. UpdateAllowList env cfg np node ip operation c = (None, c') \<and>
    (\<forall>d \<in> pool_dbs cfg np. \<exists>xs. C (world c) d = Some xs \<and>
      C (world c') d = Some (if edit (effective_op operation) ip (entries xs) = entries xs then xs
                             else new_list (effective_op operation) ip xs))"
proof -
  obtain c' where run: "UpdateAllowList env cfg np node ip operation c = (None, c')"
    using UpdateAllowList_live [OF assms] by (metis prod.collapse)
  have "0 < MaxAttempts (Retry cfg)" using assms(6) by simp
  with UpdateAllowList_spec(2) [OF assms(1) pool_inv_start [OF assms(2)] run] run show ?thesis
    unfolding db_done_def by blast
qed

theorem UpdateAllowList_outlasts_transient_failures_witness:
  "\<exists>c'. UpdateAllowList demo_env demo_pools ''prod'' ''node-1'' ''192.0.2.9'' ''add''
     (demo_client [] (replicate 4 (Some (''timeout'', False)))) = (None, c')"
proof -
  let ?c = "demo_client [] (replicate 4 (Some (''timeout'', False)))"
  have "\<forall>d \<in> pool_dbs demo_pools ''prod''. dw_stored (world ?c) d \<noteq> None"
    by (simp add: demo_pool_dbs demo_client_stored)
  moreover have "int (length (dw_script (world ?c))) < MaxAttempts (Retry demo_pools)"
    by (simp add: demo_client_def NewClientWithAPI_def demo_attempts)
  ultimately show ?thesis
    using UpdateAllowList_outlasts_transient_failures
      [OF demo_env_ok demo_cache_ok demo_transient demo_databases] by blast
qed

text \<open>
  A nodepool that is not configured, or has no databases, is an error that names it, and nothing is
  called or changed; of two nodepools of the same name only the first counts.
\<close>

theorem UpdateAllowList_unknown_nodepool:
  "(np \<notin> np_Name ` set (Nodepools cfg) \<longrightarrow>
     UpdateAllowList env cfg np node ip operation c = (Some (''no databases configured for nodepool '' @ np), c)) \<and>
   (\<forall>before after dbs. Nodepools cfg = before @ \<lparr>np_Name = np, np_Databases = dbs\<rparr> # after \<and>
        np \<notin> np_Name ` set before \<longrightarrow>
      (dbs = [] \<longrightarrow> UpdateAllowList env cfg np node ip operation c =
         (Some (''no databases configured for nodepool '' @ np), c)) \<and>
      UpdateAllowList (env :: 'w linode_env) cfg np node ip operation c =
        UpdateAllowList env (cfg\<lparr>Nodepools := [\<lparr>np_Name = np, np_Databases = dbs\<rparr>]\<rparr>) np node ip operation c)"
  using pool_not_configured [of np "Nodepools cfg"] first_pool_counts [of np]
  by (auto simp: UpdateAllowList_def Let_def handleAddOperation_def handleDeleteOperation_def
      updateDatabaseAllowList_cfg)

theorem UpdateAllowList_unknown_nodepool_witness:
  "UpdateAllowList demo_env demo_pools ''dev'' ''node-1'' ''192.0.2.9'' ''add'' (demo_client [] []) =
     (Some ''no databases configured for nodepool dev'', demo_client [] [])"
proof -
  have "''dev'' \<notin> np_Name ` set (Nodepools demo_pools)" by (simp add: demo_pools_def)
  then show ?thesis
    using UpdateAllowList_unknown_nodepool [of "''dev''" demo_pools demo_env "''node-1''" "''192.0.2.9''" "''add''"
      "demo_client [] []"] by simp
qed

text \<open>
  C31. A client that has nothing to do does not write: when every configured database of the nodepool
  already shows the edit, the run of \<^verbatim>\<open>UpdateAllowList\<close> is the same whatever the service's write would
  do, and the stored lists stay as they are. So repeating an update is harmless.
\<close>

theorem UpdateAllowList_settled_never_writes:
  assumes "env_ok env C" and "cache_ok C c"
    and quiet: "\<forall>d \<in> pool_dbs cfg np. settled C d ip (effective_op operation) c"
  shows "UpdateAllowList (env\<lparr>api_update := f\<rparr>) cfg np node ip operation c =
      UpdateAllowList env cfg np node ip operation c \<and>
    C (world (snd (UpdateAllowList env cfg np node ip operation c))) = C (world c)"
proof (cases "getDatabasesForNodepool (Nodepools cfg) np = []")
  case True
  then show ?thesis by (simp add: UpdateAllowList_def)
next
  case False
  let ?I = "settled_inv env C (C (world c))"
  have I: "?I (c\<lparr>client_metrics := m\<rparr>)" for m
    using assms(1,2) by (simp add: settled_inv_def cache_ok_def)
  have quiet': "\<forall>xs. C (world c) (db_ID db) = Some xs \<longrightarrow> edit (effective_op operation) ip (entries xs) = entries xs"
    if "db \<in> set (getDatabasesForNodepool (Nodepools cfg) np)" for db
    using quiet that by (simp add: settled_def pool_dbs_def)
  let ?dbs = "getDatabasesForNodepool (Nodepools cfg) np"
  let ?op = "\<lambda>e db. updateDatabaseAllowList e cfg (db_ID db) (db_Name db) node ip (effective_op operation)"
  obtain m where run: "\<And>e. UpdateAllowList e cfg np node ip operation c =
      loop_last_err (?op e) ?dbs None (c\<lparr>client_metrics := m\<rparr>)"
    using UpdateAllowList_loops [OF refl False] by blast
  have same: "?op (env\<lparr>api_update := f\<rparr>) db s = ?op env db s" and keep: "?I (snd (?op env db s))"
    if "db \<in> set ?dbs" "?I s" for db s
    by (rule updateDatabaseAllowList_settled [OF that(2) quiet' [OF that(1)]])+
  have "loop_last_err (?op (env\<lparr>api_update := f\<rparr>)) ?dbs None (c\<lparr>client_metrics := m\<rparr>) =
      loop_last_err (?op env) ?dbs None (c\<lparr>client_metrics := m\<rparr>)"
    by (rule loop_last_err_cong [of ?I, OF I same keep])
  moreover have "?I (snd (loop_last_err (?op env) ?dbs None (c\<lparr>client_metrics := m\<rparr>)))"
    by (rule loop_last_err_inv [of ?I, OF I keep])
  ultimately show ?thesis by (simp add: run settled_inv_def)
qed

theorem UpdateAllowList_settled_never_writes_witness:
  "UpdateAllowList (demo_env\<lparr>api_update := \<lambda>_ _ w. (Some ''must not happen'', w)\<rparr>) demo_pools ''prod'' ''node-1''
     ''192.0.2.9'' ''add'' (demo_client [''192.0.2.9''] []) =
   UpdateAllowList demo_env demo_pools ''prod'' ''node-1'' ''192.0.2.9'' ''add'' (demo_client [''192.0.2.9''] [])"
proof -
  have "\<forall>d \<in> pool_dbs demo_pools ''prod''.
      settled dw_stored d ''192.0.2.9'' (effective_op ''add'') (demo_client [''192.0.2.9''] [])"
    by (simp add: demo_pool_dbs settled_def demo_client_stored effective_op_def edit_def entries_def insert_absorb)
  from UpdateAllowList_settled_never_writes [OF demo_env_ok demo_cache_ok this] show ?thesis by blast
qed

text \<open>
  The order in which Go's \<^verbatim>\<open>range\<close> visits the set of addresses does not matter: two clients that
  differ only in it behave alike.
\<close>

theorem UpdateAllowList_order_independent:
  assumes "range_order_ok (ip_order env)" and "range_order_ok ord"
  shows "UpdateAllowList (env\<lparr>ip_order := ord\<rparr>) cfg np node ip operation c =
    UpdateAllowList env cfg np node ip operation c"
  by (simp add: UpdateAllowList_def handleAddOperation_def handleDeleteOperation_def Let_def
      updateDatabaseAllowList_order [OF assms])

theorem UpdateAllowList_order_independent_witness:
  "UpdateAllowList (demo_env\<lparr>ip_order := rev \<circ> sorted_list_of_set\<rparr>) demo_pools ''prod'' ''n'' ''::1'' ''add''
     (demo_client [''10.0.0.0/8''] []) =
   UpdateAllowList demo_env demo_pools ''prod'' ''n'' ''::1'' ''add'' (demo_client [''10.0.0.0/8''] [])"
  by (rule UpdateAllowList_order_independent)
    (simp_all add: demo_env_def range_order_sorted_list_of_set, simp add: range_order_ok_def)



text \<open>
  Every fetch that succeeds raises the open-access alert of the database once for each entry that
  opens it to any address, and a fetch that fails raises none.
\<close>

theorem fetch_counts_open_access:
  assumes "fetchAndCacheAllowList env db nm c = (r, c')"
  shows "counter_value (client_metrics c') ''allow_list_open_access_alerts_total'' [nm] =
    counter_value (client_metrics c) ''allow_list_open_access_alerts_total'' [nm] +
    (if r = None then length (filter open_entry (AllowList (the (allowListCache c' db)))) else 0)"
  using assms
  by (auto simp: fetchAndCacheAllowList_def alert_open_access_counter
      split: prod.splits option.splits sum.splits)

theorem fetch_counts_open_access_witness:
  "counter_value (client_metrics (snd (fetchAndCacheAllowList demo_env ''101'' ''orders''
      (demo_client [''0.0.0.0/0'', ''10.0.0.0/8'', ''::/0''] [])))) ''allow_list_open_access_alerts_total'' [''orders''] = 2"
proof -
  let ?c = "demo_client [''0.0.0.0/0'', ''10.0.0.0/8'', ''::/0''] []"
  obtain c' where run: "fetchAndCacheAllowList demo_env ''101'' ''orders'' ?c = (None, c')"
    and cached: "AllowList (the (allowListCache c' ''101'')) = [''0.0.0.0/0'', ''10.0.0.0/8'', ''::/0'']"
    by (simp add: fetchAndCacheAllowList_def demo_env_def demo_get_def demo_client_def NewClientWithAPI_def)
  show ?thesis
    using fetch_counts_open_access [OF run] run unfolding cached
    by (simp add: open_entry_def demo_client_def NewClientWithAPI_def)
qed

text \<open>
  C32. The adapter of the Linode service: an ID that is not a number is an error, by both operations,
  without a call; what a successful write stores under an ID is what a read under any ID that denotes
  the same number returns, and reads under other numbers return what they did before.
\<close>

theorem adapter_read_after_write:
  assumes "service_laws svc S"
    and upd: "adapter_UpdateDatabaseAllowList svc a xs w = (None, w1)"
    and get: "adapter_GetDatabaseAllowList svc b w1 = (Inr ys, w2)"
  shows "\<exists>m n. atoi a = Inr m \<and> atoi b = Inr n \<and> (if m = n then ys = xs else S w n = Some ys)"
proof -
  obtain m where m: "atoi a = Inr m" "UpdateMySQLDatabase svc m xs w = (None, w1)"
    using upd by (auto simp: adapter_UpdateDatabaseAllowList_def split: sum.splits prod.splits option.splits)
  obtain n where n: "atoi b = Inr n" "GetMySQLDatabase svc n w1 = (Inr ys, w2)"
    using get by (auto simp: adapter_GetDatabaseAllowList_def split: sum.splits prod.splits)
  have "S w1 = (S w)(m \<mapsto> xs)" and "S w1 n = Some ys"
    using assms(1) m(2) n(2) unfolding service_laws_def by metis+
  then show ?thesis using m(1) n(1) by auto
qed

theorem adapter_read_after_write_witness:
  "fst (adapter_GetDatabaseAllowList demo_service ''007''
     (snd (adapter_UpdateDatabaseAllowList demo_service ''7'' [''::1/128''] [7 \<mapsto> []]))) = Inr [''::1/128'']"
proof -
  have ids: "atoi ''7'' = Inr 7" "atoi ''007'' = Inr 7" by code_simp+
  have upd: "adapter_UpdateDatabaseAllowList demo_service ''7'' [''::1/128''] [7 \<mapsto> []] = (None, [7 \<mapsto> [''::1/128'']])"
    by (simp add: adapter_UpdateDatabaseAllowList_def demo_service_def ids)
  obtain ys w2 where get: "adapter_GetDatabaseAllowList demo_service ''007'' [7 \<mapsto> [''::1/128'']] = (Inr ys, w2)"
    by (simp add: adapter_GetDatabaseAllowList_def demo_service_def ids)
  have "ys = [''::1/128'']"
    using adapter_read_after_write [OF demo_service_laws upd get] unfolding ids by simp
  then show ?thesis by (simp add: upd get)
qed

text \<open>
  Database IDs are not validated as numbers: with an ID that \<^verbatim>\<open>strconv.Atoi\<close> rejects, both operations
  of the adapter fail without calling the service, whatever it would answer, so that no update of that
  database can ever succeed, although \<^verbatim>\<open>Validate\<close> accepts such a configuration.
\<close>

theorem adapter_rejects_non_numeric:
  assumes "atoi dbID = Inl e"
  shows "adapter_GetDatabaseAllowList svc dbID w = (Inl (''invalid database ID '' @ dbID @ '': '' @ e), w) \<and>
    adapter_UpdateDatabaseAllowList svc dbID xs w = (Some (''invalid database ID '' @ dbID @ '': '' @ e), w)"
  using assms by (simp add: adapter_GetDatabaseAllowList_def adapter_UpdateDatabaseAllowList_def)

theorem adapter_rejects_non_numeric_witness:
  "Validate (demo_pools\<lparr>LinodeToken := ''t'', Nodepools :=
       [\<lparr>np_Name = ''prod'', np_Databases = [\<lparr>db_ID = ''orders'', db_Name = ''orders''\<rparr>]\<rparr>]\<rparr>) = None \<and>
   fst (adapter_UpdateDatabaseAllowList demo_service ''orders'' [] Map.empty) \<noteq> None"
proof -
  have "\<exists>e. atoi ''orders'' = Inl e"
    by (rule exI [of _ "projl (atoi ''orders'')"]) code_simp
  then obtain e where "atoi ''orders'' = Inl e" by blast
  from adapter_rejects_non_numeric [OF this, of demo_service Map.empty "[]"] have
    "fst (adapter_UpdateDatabaseAllowList demo_service ''orders'' [] Map.empty) \<noteq> None" by auto
  moreover have "Validate (demo_pools\<lparr>LinodeToken := ''t'', Nodepools :=
       [\<lparr>np_Name = ''prod'', np_Databases = [\<lparr>db_ID = ''orders'', db_Name = ''orders''\<rparr>]\<rparr>]\<rparr>) = None"
    by code_simp
  ultimately show ?thesis by blast
qed

text \<open>
  \<^verbatim>\<open>normalizeIP\<close> is idempotent and identifies exactly a bare address with the range of that single
  address (\<^verbatim>\<open>/32\<close>, or \<^verbatim>\<open>/128\<close> where it holds a colon): no two entries that differ otherwise are confused.
\<close>

theorem normalizeIP_identifies:
  "normalizeIP (normalizeIP a) = normalizeIP a \<and>
   (normalizeIP a = normalizeIP b \<longleftrightarrow>
      a = b \<or> CHR ''/'' \<notin> set a \<and> b = a @ (if CHR '':'' \<in> set a then ''/128'' else ''/32'')
            \<or> CHR ''/'' \<notin> set b \<and> a = b @ (if CHR '':'' \<in> set b then ''/128'' else ''/32''))"
proof -
  have no: "x @ ''/128'' \<noteq> y @ ''/32''" for x y :: string
  proof
    assume "x @ ''/128'' = y @ ''/32''"
    then have "last (x @ ''/128'') = last (y @ ''/32'')" by simp
    then show False by simp
  qed
  show ?thesis
    using no [of a b] no [of b a] by (auto simp: normalizeIP_def)
qed

text \<open>
  C33. The cache is never refreshed but by the client's own writes: when the stored list has changed
  under a cached one, the next edit writes the edit of the cached list, and entries that the cache does
  not know are lost.
\<close>

theorem stale_cache_overwrites:
  assumes "env_ok env C" and "allowListCache c db = Some e" and "C (world c) db = Some stored"
    and "update_attempt env db nm ip operation c = (None, c')"
    and "edit operation ip (entries (AllowList e)) \<noteq> entries (AllowList e)"
  shows "C (world c') db = Some (new_list operation ip (AllowList e)) \<and>
    (\<forall>x \<in> entries stored - entries (AllowList e) - {normalizeIP ip}. \<forall>ys. C (world c') db = Some ys \<longrightarrow> x \<notin> entries ys)"
proof -
  have laws: "api_laws env C" and ord: "range_order_ok (ip_order env)" using assms(1) by (simp_all add: env_ok_def)
  have get: "getCachedAllowList env db nm c = (Inr (AllowList e), c)"
    using assms(2) by (simp add: getCachedAllowList_def)
  obtain u w2 where u: "api_update env db (new_list operation ip (AllowList e)) (world c) = (u, w2)" by fastforce
  have "u = None" and c': "world c' = w2"
    using assms(4,5) u by (auto simp: update_attempt_alt [OF ord] get invalidateCache_def split: option.splits)
  then have "C (world c') = (C (world c))(db \<mapsto> new_list operation ip (AllowList e))"
    using api_update_ok [OF laws] u by metis
  then have "C (world c') db = Some (new_list operation ip (AllowList e))" by simp
  moreover have "x \<notin> edit operation ip (entries (AllowList e))"
    if "x \<in> entries stored - entries (AllowList e) - {normalizeIP ip}" for x
    using that by (auto simp: edit_def)
  ultimately show ?thesis by (auto simp: entries_new_list)
qed

theorem stale_cache_overwrites_witness:
  "dw_stored (world (snd (update_attempt demo_env ''101'' ''orders'' ''192.0.2.9'' ''add''
     ((demo_client [''10.0.0.0/8'', ''203.0.113.5/32''] [])
        \<lparr>allowListCache := [''101'' \<mapsto> \<lparr>AllowList = [''10.0.0.0/8''], LastFetched = 0\<rparr>]\<rparr>)))) ''101'' =
   Some (new_list ''add'' ''192.0.2.9'' [''10.0.0.0/8''])"
proof -
  let ?e = "\<lparr>AllowList = [''10.0.0.0/8''], LastFetched = 0\<rparr>"
  let ?c = "(demo_client [''10.0.0.0/8'', ''203.0.113.5/32''] [])\<lparr>allowListCache := [''101'' \<mapsto> ?e]\<rparr>"
  obtain r c' where run: "update_attempt demo_env ''101'' ''orders'' ''192.0.2.9'' ''add'' ?c = (r, c')" by fastforce
  have "fst (update_attempt demo_env ''101'' ''orders'' ''192.0.2.9'' ''add'' ?c) = None" by code_simp
  then have "r = None" using run by simp
  have cached: "allowListCache ?c ''101'' = Some ?e" by simp
  have stored: "dw_stored (world ?c) ''101'' = Some [''10.0.0.0/8'', ''203.0.113.5/32'']"
    by (simp add: demo_client_def NewClientWithAPI_def)
  have "edit ''add'' ''192.0.2.9'' (entries (AllowList ?e)) \<noteq> entries (AllowList ?e)"
    by (simp add: edit_def entries_def demo_normal)
  from stale_cache_overwrites [OF demo_env_ok cached stored run [unfolded \<open>r = None\<close>] this] run
  show ?thesis by simp
qed


end
