(* ===== verification/ConcurrentUpdates.thy ===== *)
theory ConcurrentUpdates
  imports AllowListProps
begin

text \<open>
  Updates that run at the same time. Each informer calls the handlers in its own goroutine and earlier
  informers are never stopped, so calls of \<^verbatim>\<open>updateDatabaseAllowList\<close> overlap; the mutex of the client is
  never taken, and what is atomic is one access to the cache, one call to the service, one read of the
  clock. This theory splits \<^verbatim>\<open>updateDatabaseAllowList\<close>, with the retry loop and the attempt, at these
  points: where a goroutine stands is an \<open>update_point\<close>, what it does next an \<open>update_step\<close>, and a run
  of several goroutines is a schedule, the list of their turns.
\<close>

record job =
  job_db :: string
  job_name :: string
  job_node :: string
  job_ip :: string
  job_op :: string

text \<open>The points of an attempt (the closure that is retried).\<close>

datatype attempt_point =
    LookUp
  | AwaitLimiter
  | FetchList
  | StoreList "string list"
  | ReadBack
  | EditList "string list"
  | SendList "string list"
  | Invalidate
  | AttemptOver "go_error option"

text \<open>
  The points of the update around it; the number is the reading of the clock at its start, then comes
  the number of the attempt.
\<close>

datatype update_point =
    Enter
  | Throttle int
  | LoopHead int nat "go_error option"
  | Trying int nat attempt_point
  | Backoff int nat go_error
  | Leave int "go_error option"
  | UpdateOver "go_error option"

fun attempt_step :: "'w linode_env \<Rightarrow> job \<Rightarrow> attempt_point \<Rightarrow> 'w client \<Rightarrow> attempt_point \<times> 'w client" where
  "attempt_step env j LookUp c =
     (case allowListCache c (job_db j) of
        Some entry \<Rightarrow> (EditList (AllowList entry), c)
      | None \<Rightarrow> (AwaitLimiter, c))"
| "attempt_step env j AwaitLimiter c =
     (case limiter_wait env (world c) of
        (Some err, w) \<Rightarrow> (AttemptOver (Some (''rate limiter error: '' @ err)), c\<lparr>world := w\<rparr>)
      | (None, w) \<Rightarrow> (FetchList, c\<lparr>world := w\<rparr>))"
| "attempt_step env j FetchList c =
     (case api_get env (job_db j) (world c) of
        (Inl err, w) \<Rightarrow> (AttemptOver (Some err), c\<lparr>world := w\<rparr>)
      | (Inr allowList, w) \<Rightarrow> (StoreList allowList, c\<lparr>world := w\<rparr>))"
| "attempt_step env j (StoreList allowList) c =
     (case clock_now env (world c) of
        (now, w) \<Rightarrow>
          (ReadBack,
           c\<lparr>client_metrics := alert_open_access (job_name j) allowList (client_metrics c),
             allowListCache := (allowListCache c)(job_db j \<mapsto> \<lparr>AllowList = allowList, LastFetched = now\<rparr>),
             world := w\<rparr>))"
| "attempt_step env j ReadBack c =
     (case allowListCache c (job_db j) of
        Some entry \<Rightarrow> (EditList (AllowList entry), c)
      | None \<Rightarrow> (EditList [], c))"
| "attempt_step env j (EditList allowList) c =
     (case edit_ip_set (job_op j) (job_ip j) (ip_set allowList) of
        (False, _) \<Rightarrow> (AttemptOver None, c)
      | (True, ipSet) \<Rightarrow> (SendList (sort (ip_order env ipSet)), c))"
| "attempt_step env j (SendList newAllowList) c =
     (case api_update env (job_db j) newAllowList (world c) of
        (None, w) \<Rightarrow>
          (Invalidate,
           c\<lparr>client_metrics := IncrementAllowListUpdates (job_name j) (job_op j) (client_metrics c), world := w\<rparr>)
      | (Some err, w) \<Rightarrow> (AttemptOver (Some err), c\<lparr>world := w\<rparr>))"
| "attempt_step env j Invalidate c = (AttemptOver None, invalidateCache (job_db j) c)"
| "attempt_step env j (AttemptOver r) c = (AttemptOver r, c)"

fun update_step ::
  "'w linode_env \<Rightarrow> config \<Rightarrow> job \<Rightarrow> update_point \<Rightarrow> 'w client \<Rightarrow> update_point \<times> 'w client" where
  "update_step env cfg j Enter c =
     (case clock_now env (world c) of (startTime, w) \<Rightarrow> (Throttle startTime, c\<lparr>world := w\<rparr>))"
| "update_step env cfg j (Throttle t) c =
     (case limiter_wait env (world c) of
        (Some err, w) \<Rightarrow> (Leave t (Some (''rate limiter error: '' @ err)), c\<lparr>world := w\<rparr>)
      | (None, w) \<Rightarrow> (LoopHead t 0 None, c\<lparr>world := w\<rparr>))"
| "update_step env cfg j (LoopHead t attempt err) c =
     (if int attempt < MaxAttempts (Retry cfg) then (Trying t attempt LookUp, c) else (Leave t err, c))"
| "update_step env cfg j (Trying t attempt (AttemptOver None)) c = (Leave t None, c)"
| "update_step env cfg j (Trying t attempt (AttemptOver (Some e))) c =
     (if \<not> DefaultIsRetryable e then (Leave t (Some e), c)
      else (case ctx_err (runtime env) (world c) of
              Some err \<Rightarrow> (Leave t (Some (''operation cancelled: '' @ err)), c)
            | None \<Rightarrow> (Backoff t attempt e, c)))"
| "update_step env cfg j (Trying t attempt p) c =
     (case attempt_step env j p c of (p', c') \<Rightarrow> (Trying t attempt p', c'))"
| "update_step env cfg j (Backoff t attempt e) c =
     (case next_backoff (lift_runtime (runtime env)) (Retry cfg) attempt c of
        (d, c1) \<Rightarrow>
          (case wait_backoff (lift_runtime (runtime env)) d c1 of
             (Some err, c2) \<Rightarrow> (Leave t (Some (''operation cancelled: '' @ err)), c2)
           | (None, c2) \<Rightarrow> (LoopHead t (Suc attempt) (Some e), c2)))"
| "update_step env cfg j (Leave t r) c =
     (case clock_now env (world c) of
        (endTime, w) \<Rightarrow>
          (UpdateOver r,
           c\<lparr>client_metrics :=
               ObserveAllowListUpdateLatency (job_name j) (job_op j)
                 (real_of_int (endTime - t) / real_of_int time_Second) (client_metrics c),
             world := w\<rparr>))"
| "update_step env cfg j (UpdateOver r) c = (UpdateOver r, c)"

text \<open>Several updates: each with its point, and the client they share.\<close>

definition take_turn ::
  "('j \<Rightarrow> 'p \<Rightarrow> 's \<Rightarrow> 'p \<times> 's) \<Rightarrow> nat \<Rightarrow> ('j \<times> 'p) list \<times> 's \<Rightarrow> ('j \<times> 'p) list \<times> 's" where
  "take_turn step i st =
     (case st of
        (ts, s) \<Rightarrow>
          if i < length ts
          then (case ts ! i of (j, p) \<Rightarrow> (case step j p s of (p', s') \<Rightarrow> (ts[i := (j, p')], s')))
          else (ts, s))"

definition interleave ::
  "('j \<Rightarrow> 'p \<Rightarrow> 's \<Rightarrow> 'p \<times> 's) \<Rightarrow> nat list \<Rightarrow> ('j \<times> 'p) list \<times> 's \<Rightarrow> ('j \<times> 'p) list \<times> 's" where
  "interleave step turns st = fold (take_turn step) turns st"

definition updates_at_once ::
  "'w linode_env \<Rightarrow> config \<Rightarrow> nat list \<Rightarrow> job list \<Rightarrow> 'w client \<Rightarrow> (job \<times> update_point) list \<times> 'w client" where
  "updates_at_once env cfg turns js c = interleave (update_step env cfg) turns (map (\<lambda>j. (j, Enter)) js, c)"

section \<open>An update that runs alone\<close>

text \<open>\<open>leads f x y\<close>: some number of rounds of \<open>f\<close> takes \<open>x\<close> to \<open>y\<close>.\<close>

definition leads :: "('a \<Rightarrow> 'a) \<Rightarrow> 'a \<Rightarrow> 'a \<Rightarrow> bool" where
  "leads f x y \<longleftrightarrow> (\<exists>n. (f ^^ n) x = y)"

lemma leads_refl [intro]: "leads f x x"
  unfolding leads_def by (intro exI [of _ 0]) simp

lemma leads_step: "f x = x' \<Longrightarrow> leads f x' y \<Longrightarrow> leads f x y"
  unfolding leads_def by (metis funpow_swap1 funpow.simps(2) o_apply)

lemma leads_trans: "leads f x y \<Longrightarrow> leads f y z \<Longrightarrow> leads f x z"
  unfolding leads_def by (metis funpow_add add.commute o_apply)

abbreviation alone :: "'w linode_env \<Rightarrow> config \<Rightarrow> job \<Rightarrow> update_point \<times> 'w client \<Rightarrow> update_point \<times> 'w client" where
  "alone env cfg j \<equiv> \<lambda>(p, c). update_step env cfg j p c"

lemma leads_alone: "update_step env cfg j p c = (p', c') \<Longrightarrow> leads (alone env cfg j) (p', c') y \<Longrightarrow>
  leads (alone env cfg j) (p, c) y"
  by (rule leads_step) simp

lemma invalidate_alone:
  "leads (alone env cfg j) (Trying t n Invalidate, c) (Trying t n (AttemptOver None), invalidateCache (job_db j) c)"
  by (rule leads_alone) auto

lemma read_back_alone:
  "map_option AllowList (allowListCache c (job_db j)) = Some xs \<Longrightarrow>
   leads (alone env cfg j) (Trying t n ReadBack, c) (Trying t n (EditList xs), c)"
  by (rule leads_alone [where p' = "Trying t n (EditList xs)" and c' = c]) auto

lemma read_alone:
  assumes "getCachedAllowList env (job_db j) (job_name j) c = (r, c1)"
  shows "leads (alone env cfg j) (Trying t n LookUp, c)
    (Trying t n (case r of Inl err \<Rightarrow> AttemptOver (Some err) | Inr xs \<Rightarrow> EditList xs), c1)"
proof (cases "allowListCache c (job_db j)")
  case (Some e)
  then show ?thesis using assms by (intro leads_alone [of env cfg j "Trying t n LookUp"])
    (auto simp: getCachedAllowList_def)
next
  case None
  obtain l w1 where l: "limiter_wait env (world c) = (l, w1)" by fastforce
  obtain g w2 where g: "api_get env (job_db j) w1 = (g, w2)" by fastforce
  obtain now w3 where now: "clock_now env w2 = (now, w3)" by fastforce
  note run = assms [unfolded getCachedAllowList_def fetchAndCacheAllowList_def]
  have start: "leads (alone env cfg j) (Trying t n AwaitLimiter, c) y \<Longrightarrow>
      leads (alone env cfg j) (Trying t n LookUp, c) y" for y
    by (rule leads_alone) (simp_all add: None)
  show ?thesis
  proof (cases l)
    case (Some err)
    then show ?thesis using run None l
      by (intro start leads_alone [of env cfg j "Trying t n AwaitLimiter"]) auto
  next
    case l_ok: None
    have fetch: "leads (alone env cfg j) (Trying t n FetchList, c\<lparr>world := w1\<rparr>) y \<Longrightarrow>
        leads (alone env cfg j) (Trying t n LookUp, c) y" for y
      by (intro start leads_alone [of env cfg j "Trying t n AwaitLimiter"]) (simp_all add: l l_ok)
    show ?thesis
    proof (cases g)
      case (Inl err)
      then show ?thesis using run None l l_ok g
        by (intro fetch leads_alone [of env cfg j "Trying t n FetchList"]) auto
    next
      case (Inr xs)
      have store: "leads (alone env cfg j) (Trying t n (StoreList xs), c\<lparr>world := w2\<rparr>) y \<Longrightarrow>
          leads (alone env cfg j) (Trying t n LookUp, c) y" for y
        by (intro fetch leads_alone [of env cfg j "Trying t n FetchList"]) (simp_all add: g Inr)
      show ?thesis using run None l l_ok g Inr now
        by (intro store leads_alone [of env cfg j "Trying t n (StoreList xs)"]) (auto intro!: read_back_alone)
    qed
  qed
qed

lemma attempt_alone:
  assumes "update_attempt env (job_db j) (job_name j) (job_ip j) (job_op j) c = (r, c')"
  shows "leads (alone env cfg j) (Trying t n LookUp, c) (Trying t n (AttemptOver r), c')"
proof -
  obtain g c1 where g: "getCachedAllowList env (job_db j) (job_name j) c = (g, c1)" by fastforce
  show ?thesis
  proof (cases g)
    case (Inl err)
    then show ?thesis using read_alone [OF g, of cfg t n] assms by (simp add: update_attempt_def g)
  next
    case (Inr xs)
    obtain m S where e: "edit_ip_set (job_op j) (job_ip j) (ip_set xs) = (m, S)" by fastforce
    obtain u w2 where u: "api_update env (job_db j) (sort (ip_order env S)) (world c1) = (u, w2)" by fastforce
    have "leads (alone env cfg j) (Trying t n (EditList xs), c1) (Trying t n (AttemptOver r), c')"
    proof (cases m)
      case False
      then show ?thesis using assms e
        by (intro leads_alone [of env cfg j "Trying t n (EditList xs)"]) (auto simp: update_attempt_def g Inr)
    next
      case True
      have send: "leads (alone env cfg j) (Trying t n (SendList (sort (ip_order env S))), c1) y \<Longrightarrow>
          leads (alone env cfg j) (Trying t n (EditList xs), c1) y" for y
        by (rule leads_alone) (simp_all add: e True)
      show ?thesis
      proof (cases u)
        case None
        then show ?thesis using assms e u True
          by (intro send leads_alone [of env cfg j "Trying t n (SendList (sort (ip_order env S)))"])
            (auto simp: update_attempt_def g Inr intro: invalidate_alone)
      next
        case (Some err)
        then show ?thesis using assms e u True
          by (intro send leads_alone [of env cfg j "Trying t n (SendList (sort (ip_order env S)))"])
            (auto simp: update_attempt_def g Inr)
      qed
    qed
    then show ?thesis using leads_trans [OF read_alone [OF g, of cfg t n]] Inr by simp
  qed
qed

text \<open>The retry loop and the update around it.\<close>

lemma loop_alone:
  assumes "retry_loop (lift_runtime (runtime env)) (Retry cfg)
      (update_attempt env (job_db j) (job_name j) (job_ip j) (job_op j)) (Some DefaultIsRetryable) n err c = (r, c')"
  shows "leads (alone env cfg j) (LoopHead t n err, c) (Leave t r, c')"
  using assms
proof (induction "nat (MaxAttempts (Retry cfg)) - n" arbitrary: n err c)
  case 0
  then have "\<not> int n < MaxAttempts (Retry cfg)" by simp
  then show ?case using 0(2) by (intro leads_alone [of env cfg j "LoopHead t n err"]) (auto simp: retry_loop_done)
next
  case (Suc k)
  let ?rt = "lift_runtime (runtime env)"
  have more: "int n < MaxAttempts (Retry cfg)" "k = nat (MaxAttempts (Retry cfg)) - Suc n" using Suc.hyps(2) by simp_all
  obtain a c1 where a: "update_attempt env (job_db j) (job_name j) (job_ip j) (job_op j) c = (a, c1)" by fastforce
  obtain d c2 where d: "next_backoff ?rt (Retry cfg) n c1 = (d, c2)" by fastforce
  obtain b c3 where b: "wait_backoff ?rt d c2 = (b, c3)" by fastforce
  note loop = Suc.prems [unfolded retry_loop_step [where fn = "update_attempt env (job_db j) (job_name j) (job_ip j) (job_op j)", OF more(1) a d b]]
  have tried: "leads (alone env cfg j) (Trying t n (AttemptOver a), c1) y \<Longrightarrow>
      leads (alone env cfg j) (LoopHead t n err, c) y" for y
    by (rule leads_alone [of env cfg j "LoopHead t n err" c "Trying t n LookUp" c])
      (use more(1) leads_trans [OF attempt_alone [OF a]] in auto)
  show ?case
  proof (cases a)
    case None
    then show ?thesis using loop
      by (intro tried leads_alone [of env cfg j "Trying t n (AttemptOver a)"]) auto
  next
    case (Some e)
    show ?thesis
    proof (cases "ctx_err (runtime env) (world c1)")
      case (Some err)
      then show ?thesis using loop \<open>a = Some e\<close>
        by (intro tried leads_alone [of env cfg j "Trying t n (AttemptOver a)"])
          (auto simp: DefaultIsRetryable_def lift_runtime_def)
    next
      case None
      then have ctx: "ctx_err ?rt c1 = None" by (simp add: lift_runtime_def)
      have pause: "leads (alone env cfg j) (Backoff t n e, c1) y \<Longrightarrow>
          leads (alone env cfg j) (LoopHead t n err, c) y" for y
        by (intro tried leads_alone [of env cfg j "Trying t n (AttemptOver a)"])
          (simp_all add: Some DefaultIsRetryable_def None)
      have loop': "(case b of Some c \<Rightarrow> (Some (''operation cancelled: '' @ c), c3)
         | None \<Rightarrow> retry_loop ?rt (Retry cfg) (update_attempt env (job_db j) (job_name j) (job_ip j) (job_op j))
             (Some DefaultIsRetryable) (Suc n) (Some e) c3) = (r, c')"
        using loop by (simp add: Some DefaultIsRetryable_def ctx)
      show ?thesis
      proof (cases b)
        case (Some err)
        then show ?thesis using loop' d b
          by (intro pause leads_alone [of env cfg j "Backoff t n e"]) auto
      next
        case None
        have "leads (alone env cfg j) (LoopHead t (Suc n) (Some e), c3) (Leave t r, c')"
          using Suc.hyps(1) [OF more(2)] loop' None by simp
        then show ?thesis using d b None
          by (intro pause leads_alone [of env cfg j "Backoff t n e"]) auto
      qed
    qed
  qed
qed

text \<open>The whole update.\<close>

lemma update_alone:
  assumes "updateDatabaseAllowList env cfg (job_db j) (job_name j) (job_node j) (job_ip j) (job_op j) c = (r, c')"
  shows "leads (alone env cfg j) (Enter, c) (UpdateOver r, c')"
proof -
  obtain t w0 where t: "clock_now env (world c) = (t, w0)" by fastforce
  obtain l w1 where l: "limiter_wait env w0 = (l, w1)" by fastforce
  obtain q c1 where q: "(case l of Some err \<Rightarrow> (Some (''rate limiter error: '' @ err), c\<lparr>world := w1\<rparr>)
      | None \<Rightarrow> RetryWithBackoff (lift_runtime (runtime env)) (Retry cfg)
          (update_attempt env (job_db j) (job_name j) (job_ip j) (job_op j)) (Some DefaultIsRetryable)
          (c\<lparr>world := w1\<rparr>)) = (q, c1)" by fastforce
  have body: "leads (alone env cfg j) (Enter, c) (Leave t q, c1)"
  proof -
    have "leads (alone env cfg j) (Throttle t, c\<lparr>world := w0\<rparr>) (Leave t q, c1)"
    proof (cases l)
      case (Some err)
      then show ?thesis using l q by (intro leads_alone [of env cfg j "Throttle t"]) auto
    next
      case None
      then have "leads (alone env cfg j) (LoopHead t 0 None, c\<lparr>world := w1\<rparr>) (Leave t q, c1)"
        using q by (intro loop_alone) (simp add: RetryWithBackoff_def)
      then show ?thesis using l None by (intro leads_alone [of env cfg j "Throttle t"]) auto
    qed
    then show ?thesis using t by (intro leads_alone [of env cfg j Enter]) auto
  qed
  obtain t' w2 where t': "clock_now env (world c1) = (t', w2)" by fastforce
  have "r = q" and c': "c' = c1\<lparr>client_metrics := ObserveAllowListUpdateLatency (job_name j) (job_op j)
      (real_of_int (t' - t) / real_of_int time_Second) (client_metrics c1), world := w2\<rparr>"
    using assms t l q t' by (auto simp: updateDatabaseAllowList_def)
  then have "leads (alone env cfg j) (Leave t q, c1) (UpdateOver r, c')"
    using t' by (intro leads_alone [of env cfg j "Leave t q"]) auto
  then show ?thesis by (rule leads_trans [OF body])
qed

section \<open>Interleavings as an interface\<close>

text \<open>
  Parts of a state that move by turns. \<open>I j p s\<close> is what part \<open>j\<close> at point \<open>p\<close> may assume of the shared
  state, \<open>G\<close> what holds of it anyway, for the admissible parts (\<open>ok\<close>); the turns of a part keep its own
  assertion and \<open>G\<close>, and they do not interfere with the assertion of a part that is \<open>apart\<close>.
\<close>

locale turns =
  fixes step :: "'j \<Rightarrow> 'p \<Rightarrow> 's \<Rightarrow> 'p \<times> 's"
    and I :: "'j \<Rightarrow> 'p \<Rightarrow> 's \<Rightarrow> bool" and G :: "'s \<Rightarrow> bool"
    and ok :: "'j \<Rightarrow> bool" and apart :: "'j \<Rightarrow> 'j \<Rightarrow> bool"
  assumes own: "ok j \<Longrightarrow> G s \<Longrightarrow> I j p s \<Longrightarrow> step j p s = (p', s') \<Longrightarrow> I j p' s'"
    and global: "ok j \<Longrightarrow> G s \<Longrightarrow> I j p s \<Longrightarrow> step j p s = (p', s') \<Longrightarrow> G s'"
    and undisturbed: "ok j \<Longrightarrow> G s \<Longrightarrow> apart j k \<Longrightarrow> I j p s \<Longrightarrow> I k q s \<Longrightarrow> step j p s = (p', s') \<Longrightarrow> I k q s'"
begin

definition all_inv :: "('j \<times> 'p) list \<times> 's \<Rightarrow> bool" where
  "all_inv st \<longleftrightarrow> G (snd st) \<and>
     (\<forall>i < length (fst st). ok (fst (fst st ! i)) \<and> I (fst (fst st ! i)) (snd (fst st ! i)) (snd st)) \<and>
     (\<forall>i < length (fst st). \<forall>k < length (fst st). i \<noteq> k \<longrightarrow> apart (fst (fst st ! i)) (fst (fst st ! k)))"

lemma all_inv_turn:
  assumes inv: "all_inv st"
  shows "all_inv (take_turn step i st) \<and> map fst (fst (take_turn step i st)) = map fst (fst st)"
proof -
  obtain ts s where st: "st = (ts, s)" by fastforce
  show ?thesis
  proof (cases "i < length ts")
    case True
    obtain j p where jp: "ts ! i = (j, p)" by fastforce
    obtain p' s' where run: "step j p s = (p', s')" by fastforce
    have turn: "take_turn step i st = (ts[i := (j, p')], s')"
      using True jp run by (simp add: take_turn_def st)
    have G: "G s" and i: "ok j" "I j p s" using inv True jp by (auto simp: all_inv_def st)
    have others: "I (fst (ts ! k)) (snd (ts ! k)) s'" if "k < length ts" "k \<noteq> i" for k
    proof -
      have "apart (fst (ts ! i)) (fst (ts ! k))" and "I (fst (ts ! k)) (snd (ts ! k)) s"
        using inv that True by (auto simp: all_inv_def st)
      then show ?thesis using undisturbed [OF i(1) G _ i(2) _ run] jp by simp
    qed
    have parts: "fst (ts[i := (j, p')] ! k) = fst (ts ! k)" if "k < length ts" for k
      using that jp by (cases "k = i") auto
    have "all_inv (ts[i := (j, p')], s')"
      unfolding all_inv_def
    proof (intro conjI allI impI)
      show "G (snd (ts[i := (j, p')], s'))" using global [OF i(1) G i(2) run] by simp
      fix k assume k: "k < length (fst (ts[i := (j, p')], s'))"
      show "ok (fst (fst (ts[i := (j, p')], s') ! k))"
        using inv k parts by (auto simp: all_inv_def st)
      show "I (fst (fst (ts[i := (j, p')], s') ! k)) (snd (fst (ts[i := (j, p')], s') ! k)) (snd (ts[i := (j, p')], s'))"
        using own [OF i(1) G i(2) run] others k by (cases "k = i") simp_all
      fix l assume "l < length (fst (ts[i := (j, p')], s'))" "k \<noteq> l"
      then show "apart (fst (fst (ts[i := (j, p')], s') ! k)) (fst (fst (ts[i := (j, p')], s') ! l))"
        using inv k parts by (auto simp: all_inv_def st)
    qed
    moreover have "map fst (ts[i := (j, p')]) = map fst ts"
      using jp True by (metis fst_conv list_update_id map_update nth_map)
    ultimately show ?thesis unfolding turn by (simp add: st)
  next
    case False
    then have "take_turn step i st = st" by (simp add: take_turn_def st)
    then show ?thesis using inv by simp
  qed
qed

lemma all_inv_interleave:
  assumes "all_inv st"
  shows "all_inv (interleave step is st) \<and> map fst (fst (interleave step is st)) = map fst (fst st)"
  unfolding interleave_def using assms
proof (induction "is" arbitrary: st)
  case (Cons i "is")
  note turn = all_inv_turn [OF Cons.prems, of i]
  show ?case using Cons.IH [of "take_turn step i st"] turn by simp
qed simp

end

section \<open>Updates of different databases\<close>

text \<open>
  What an update may assume of its own database, stored with list \<open>k\<close> when all began: the assertion at
  each point, on top of \<open>db_inv\<close>.
\<close>

fun attempt_assn :: "'w stored \<Rightarrow> job \<Rightarrow> string list option \<Rightarrow> attempt_point \<Rightarrow> 'w client \<Rightarrow> bool" where
  "attempt_assn C j k (StoreList xs) c \<longleftrightarrow> C (world c) (job_db j) = Some xs"
| "attempt_assn C j k ReadBack c \<longleftrightarrow>
     (\<exists>e. allowListCache c (job_db j) = Some e \<and> C (world c) (job_db j) = Some (AllowList e))"
| "attempt_assn C j k (EditList ys) c \<longleftrightarrow>
     (\<exists>e. allowListCache c (job_db j) = Some e \<and> AllowList e = ys)"
| "attempt_assn C j k (SendList ys) c \<longleftrightarrow>
     (\<exists>xs. k = Some xs \<and> edit (job_op j) (job_ip j) (entries xs) \<noteq> entries xs \<and>
        ys = new_list (job_op j) (job_ip j) xs)"
| "attempt_assn C j k Invalidate c \<longleftrightarrow>
     (\<exists>xs. k = Some xs \<and> edit (job_op j) (job_ip j) (entries xs) \<noteq> entries xs \<and>
        C (world c) (job_db j) = Some (new_list (job_op j) (job_ip j) xs))"
| "attempt_assn C j k (AttemptOver None) c \<longleftrightarrow> db_done C (job_db j) (job_ip j) (job_op j) k c"
| "attempt_assn C j k p c \<longleftrightarrow> True"

fun point_assn :: "'w stored \<Rightarrow> job \<Rightarrow> string list option \<Rightarrow> update_point \<Rightarrow> 'w client \<Rightarrow> bool" where
  "point_assn C j k (LoopHead t n err) c \<longleftrightarrow> (err = None \<longrightarrow> n = 0)"
| "point_assn C j k (Trying t n p) c \<longleftrightarrow> attempt_assn C j k p c"
| "point_assn C j k (Leave t r) c \<longleftrightarrow> (r = None \<longrightarrow> db_done C (job_db j) (job_ip j) (job_op j) k c)"
| "point_assn C j k (UpdateOver r) c \<longleftrightarrow> (r = None \<longrightarrow> db_done C (job_db j) (job_ip j) (job_op j) k c)"
| "point_assn C j k p c \<longleftrightarrow> True"

definition update_assn ::
  "'w stored \<Rightarrow> (string \<rightharpoonup> string list) \<Rightarrow> job \<Rightarrow> update_point \<Rightarrow> 'w client \<Rightarrow> bool" where
  "update_assn C K j p c \<longleftrightarrow>
     db_inv C (job_db j) (job_ip j) (job_op j) (K (job_db j)) c \<and> point_assn C j (K (job_db j)) p c"

text \<open>The assertions are about the database of the job only.\<close>

lemma db_inv_local:
  "C (world c') db = C (world c) db \<Longrightarrow> allowListCache c' db = allowListCache c db \<Longrightarrow>
   db_inv C db ip op k c' = db_inv C db ip op k c \<and> db_done C db ip op k c' = db_done C db ip op k c"
  by (simp add: db_inv_def db_done_def)

lemma update_assn_local:
  assumes "C (world c') (job_db j) = C (world c) (job_db j)"
    and "allowListCache c' (job_db j) = allowListCache c (job_db j)"
  shows "update_assn C K j p c' = update_assn C K j p c"
proof -
  have a: "attempt_assn C j k q c' = attempt_assn C j k q c" for k q
    by (cases "(C, j, k, q, c)" rule: attempt_assn.cases) (simp_all add: assms db_inv_local [of C c' "job_db j" c, OF assms])
  have "point_assn C j k p c' = point_assn C j k p c" for k
    by (cases "(C, j, k, p, c)" rule: point_assn.cases) (simp_all add: a db_inv_local [of C c' "job_db j" c, OF assms])
  then show ?thesis by (simp add: update_assn_def db_inv_local [of C c' "job_db j" c, OF assms])
qed

text \<open>A step touches the database of its job only, in the service and in the cache.\<close>

lemma attempt_step_frame:
  assumes laws: "api_laws env C" and run: "attempt_step env j p c = (p', c')" and d: "d \<noteq> job_db j"
  shows "C (world c') d = C (world c) d \<and> allowListCache c' d = allowListCache c d"
proof -
  note frame = api_laws_frame [OF laws]
  have upd: "C w d = C (world c) d" if "api_update env (job_db j) xs (world c) = (r, w)" for xs r w
    using laws that d unfolding api_laws_def by (metis fun_upd_apply)
  show ?thesis
    using run d
  proof (cases "(env, j, p, c)" rule: attempt_step.cases)
    case (7 e0 j0 xs c0)
    then show ?thesis using run upd by (auto split: prod.splits option.splits)
  qed (auto split: prod.splits option.splits sum.splits if_splits bool.splits
      simp: invalidateCache_def frame(1) frame(2) frame(3) dest: frame(1) frame(2) frame(3))
qed

lemma update_step_trying:
  "\<forall>r. p \<noteq> AttemptOver r \<Longrightarrow> update_step env cfg j (Trying t n p) c =
     (case attempt_step env j p c of (p', c') \<Rightarrow> (Trying t n p', c'))"
  by (cases p) simp_all

lemma next_backoff_frame:
  assumes laws: "api_laws env C" and "next_backoff (lift_runtime (runtime env)) cfg n c = (d, c1)"
  shows "C (world c1) = C (world c) \<and> allowListCache c1 = allowListCache c"
  using assms(2) api_laws_frame(4) [OF laws] by (auto simp: next_backoff_def lift_runtime_def split: prod.splits if_splits)

lemma wait_backoff_frame:
  assumes laws: "api_laws env C" and "wait_backoff (lift_runtime (runtime env)) d c = (r, c1)"
  shows "C (world c1) = C (world c) \<and> allowListCache c1 = allowListCache c"
  using assms(2) api_laws_frame(5) [OF laws] by (auto simp: lift_runtime_def split: prod.splits)

text \<open>Between the attempts nothing is touched at all.\<close>

definition inside :: "update_point \<Rightarrow> bool" where
  "inside p \<longleftrightarrow> (\<exists>t n q. p = Trying t n q \<and> (\<forall>r. q \<noteq> AttemptOver r))"

lemma update_step_outside:
  assumes laws: "api_laws env C" and run: "update_step env cfg j p c = (p', c')" and "\<not> inside p"
  shows "C (world c') = C (world c) \<and> allowListCache c' = allowListCache c"
  using run assms(3) api_laws_frame(2,3) [OF laws] next_backoff_frame [OF laws] wait_backoff_frame [OF laws]
  by (cases "(env, cfg, j, p, c)" rule: update_step.cases)
    (fastforce simp: inside_def split: prod.splits option.splits if_splits)+

lemma update_step_frame:
  assumes laws: "api_laws env C" and run: "update_step env cfg j p c = (p', c')" and d: "d \<noteq> job_db j"
  shows "C (world c') d = C (world c) d \<and> allowListCache c' d = allowListCache c d"
proof (cases "inside p")
  case True
  then obtain t n q where q: "p = Trying t n q" "\<forall>r. q \<noteq> AttemptOver r" by (auto simp: inside_def)
  obtain q' c1 where "attempt_step env j q c = (q', c1)" by fastforce
  then show ?thesis using attempt_step_frame [OF laws _ d] run q by (auto simp: update_step_trying)
next
  case False
  then show ?thesis using update_step_outside [OF laws run] by simp
qed

text \<open>The steps of an attempt keep its assertions.\<close>

lemma attempt_step_own:
  assumes env: "env_ok env C" and inv: "db_inv C (job_db j) (job_ip j) (job_op j) k c"
    and at: "attempt_assn C j k p c" and run: "attempt_step env j p c = (p', c')"
  shows "db_inv C (job_db j) (job_ip j) (job_op j) k c' \<and> attempt_assn C j k p' c'"
proof -
  let ?db = "job_db j" and ?edit = "edit (job_op j) (job_ip j)" and ?new = "new_list (job_op j) (job_ip j)"
  have laws: "api_laws env C" and ord: "range_order_ok (ip_order env)" using env by (simp_all add: env_ok_def)
  have same: "db_inv C ?db (job_ip j) (job_op j) k (c\<lparr>world := w\<rparr>)" if "C w = C (world c)" for w
    using inv that by (simp add: db_inv_def)
  show ?thesis
  proof (cases p)
    case LookUp
    then show ?thesis using run inv by (auto split: option.splits)
  next
    case AwaitLimiter
    then show ?thesis using run same api_laws_frame(2) [OF laws] by (auto split: prod.splits option.splits)
  next
    case FetchList
    obtain g w where g: "api_get env ?db (world c) = (g, w)" by fastforce
    then show ?thesis using FetchList run same api_laws_frame(1) [OF laws g] api_get_stored [OF laws]
      by (auto split: sum.splits)
  next
    case (StoreList xs)
    obtain now w where t: "clock_now env (world c) = (now, w)" by fastforce
    have w: "C w = C (world c)" using api_laws_frame(3) [OF laws t] .
    have stored: "C (world c) ?db = Some xs" using at StoreList by simp
    have p': "p' = ReadBack" and c': "world c' = w" "allowListCache c' ?db = Some \<lparr>AllowList = xs, LastFetched = now\<rparr>"
      using run StoreList t by auto
    have "db_inv C ?db (job_ip j) (job_op j) k c'"
      using inv stored w by (auto simp: db_inv_def c')
    then show ?thesis using p' stored w by (simp add: c')
  next
    case ReadBack
    then show ?thesis using run inv at by (auto split: option.splits)
  next
    case (EditList ys)
    then obtain e where e: "allowListCache c ?db = Some e" "AllowList e = ys" using at by auto
    have new: "sort (ip_order env (?edit (entries ys))) = ?new ys"
      using ord by (simp add: new_list_def sort_range_order)
    show ?thesis
    proof (cases "?edit (entries ys) = entries ys")
      case True
      have "db_done C ?db (job_ip j) (job_op j) k c"
        using inv e True unfolding db_inv_def db_done_def by (auto simp: entries_new_list)
      then show ?thesis using run EditList True inv by (auto simp: edit_ip_set_edit ip_set_entries)
    next
      case False
      then have "\<exists>xs. k = Some xs \<and> ?edit (entries xs) \<noteq> entries xs \<and> ?new ys = ?new xs"
        using inv e unfolding db_inv_def by (auto simp: entries_new_list)
      then show ?thesis using run EditList False inv new by (auto simp: edit_ip_set_edit ip_set_entries)
    qed
  next
    case (SendList ys)
    then obtain xs where xs: "k = Some xs" "?edit (entries xs) \<noteq> entries xs" "ys = ?new xs" using at by auto
    obtain u w where u: "api_update env ?db ys (world c) = (u, w)" by fastforce
    have sent: "db_inv C ?db (job_ip j) (job_op j) k c'" if "C (world c') ?db = Some (?new xs)"
      "allowListCache c' = allowListCache c" for c' :: "'a client"
      using inv xs that unfolding db_inv_def by auto
    show ?thesis
    proof (cases u)
      case None
      then have "C w ?db = Some (?new xs)" using api_update_ok [OF laws] u xs(3) by simp
      then show ?thesis using run SendList u None xs sent by auto
    next
      case (Some err)
      then have "C w ?db = Some (?new xs) \<or> C w = C (world c)" using api_update_failed [OF laws u [unfolded Some]] xs(3) by auto
      then show ?thesis using run SendList u Some sent same by auto
    qed
  next
    case Invalidate
    then show ?thesis using run at by (auto simp: invalidateCache_def db_inv_def db_done_def)
  next
    case (AttemptOver r)
    then show ?thesis using run inv at by simp
  qed
qed

lemma update_step_own:
  assumes env: "env_ok env C" and pos: "0 < MaxAttempts (Retry cfg)"
    and at: "update_assn C K j p c" and run: "update_step env cfg j p c = (p', c')"
  shows "update_assn C K j p' c'"
proof (cases "inside p")
  case True
  then obtain t n q where q: "p = Trying t n q" "\<forall>r. q \<noteq> AttemptOver r" by (auto simp: inside_def)
  obtain q' c1 where "attempt_step env j q c = (q', c1)" by fastforce
  then show ?thesis
    using attempt_step_own [OF env, of j "K (job_db j)" c q] at run q by (auto simp: update_step_trying update_assn_def)
next
  case False
  have laws: "api_laws env C" using env by (simp add: env_ok_def)
  have same: "C (world c') (job_db j) = C (world c) (job_db j)"
    "allowListCache c' (job_db j) = allowListCache c (job_db j)"
    using update_step_outside [OF laws run False] by simp_all
  have "point_assn C j (K (job_db j)) p' c"
    using run at False pos
    by (cases "(env, cfg, j, p, c)" rule: update_step.cases)
      (auto simp: inside_def update_assn_def split: prod.splits option.splits if_splits)
  then have "update_assn C K j p' c" using at by (simp add: update_assn_def)
  then show ?thesis by (simp add: update_assn_local [of C c' j c, OF same])
qed

interpretation updates: turns "update_step env cfg" "update_assn C K"
  "\<lambda>c. env_ok env C \<and> 0 < MaxAttempts (Retry cfg) \<and> (\<forall>d. d \<notin> D \<longrightarrow> C (world c) d = K d)"
  "\<lambda>j. job_db j \<in> D" "\<lambda>j k. job_db j \<noteq> job_db k"
  for env :: "'w linode_env" and cfg and C :: "'w stored" and K D
proof unfold_locales
  fix j k :: job and p q p' and s s' :: "'w client"
  assume run: "update_step env cfg j p s = (p', s')"
  assume G: "env_ok env C \<and> 0 < MaxAttempts (Retry cfg) \<and> (\<forall>d. d \<notin> D \<longrightarrow> C (world s) d = K d)"
    and j: "job_db j \<in> D" and at: "update_assn C K j p s"
  then have env: "env_ok env C" "0 < MaxAttempts (Retry cfg)" and others: "\<forall>d. d \<notin> D \<longrightarrow> C (world s) d = K d"
    by blast+
  have laws: "api_laws env C" using env(1) by (simp add: env_ok_def)
  have frame: "C (world s') d = C (world s) d \<and> allowListCache s' d = allowListCache s d" if "d \<noteq> job_db j" for d
    by (rule update_step_frame [OF laws run that])
  show "update_assn C K j p' s'" by (rule update_step_own [OF env at run])
  have "C (world s') d = C (world s) d" if "d \<notin> D" for d
    using frame [of d] that j by auto
  then show "env_ok env C \<and> 0 < MaxAttempts (Retry cfg) \<and> (\<forall>d. d \<notin> D \<longrightarrow> C (world s') d = K d)"
    using env others by simp
  show "update_assn C K k q s'" if "job_db j \<noteq> job_db k" "update_assn C K k q s"
    using frame [of "job_db k"] that update_assn_local [of C s' k s K q] by simp
qed

end
