(* ===== verification/KubeClient.thy ===== *)
theory KubeClient
  imports Config "HOL-Library.AList"
begin

text \<open>
  \<^verbatim>\<open>pkg/kubernetes/client.go\<close>, the part that deals with nodes: labels, addresses, the lists and events
  of the API, the consistency checks, and the three callbacks of the node informer. The Kubernetes API
  acts on a world \<open>'w\<close> and is a parameter (\<open>kube_env\<close>), with the orders in which Go visits maps, which
  may differ from call to call (they may depend on the world). The callbacks act on any state \<open>'s\<close>
  through the registered handlers.
\<close>

record node_address =
  addr_Type :: string
  addr_Address :: string

text \<open>A node as the code uses it; \<^verbatim>\<open>Labels\<close> may be a nil map.\<close>

record node =
  node_Name :: string
  node_Labels :: "(string \<rightharpoonup> string) option"
  node_Addresses :: "node_address list"

record kube_event =
  GenerateName :: string
  event_Namespace :: string
  InvolvedKind :: string
  InvolvedName :: string
  event_Type :: string
  Reason :: string
  Message :: string
  Component :: string

record 'w kube_env =
  list_nodes :: "'w \<Rightarrow> node list result \<times> 'w"
  list_nodes_labelled :: "string \<times> string \<Rightarrow> 'w \<Rightarrow> node list result \<times> 'w"
  create_event :: "string \<Rightarrow> kube_event \<Rightarrow> 'w \<Rightarrow> go_error option \<times> 'w"
  os_hostname :: "string result"
  ipv4_order :: "'w \<Rightarrow> string range_order"
  ipv6_order :: "'w \<Rightarrow> string range_order"
  pool_order :: "'w \<Rightarrow> string range_order"

section \<open>Labels and addresses\<close>

definition getNodepoolLabelValue :: "config \<Rightarrow> node option \<Rightarrow> string" where
  "getNodepoolLabelValue cfg nd =
     (case nd of
        None \<Rightarrow> []
      | Some n \<Rightarrow>
          (case node_Labels n of
             None \<Rightarrow> []
           | Some labels \<Rightarrow> (case labels (NodepoolLabelKey cfg) of None \<Rightarrow> [] | Some v \<Rightarrow> v)))"

definition GetNodepoolLabelValue :: "config \<Rightarrow> node option \<Rightarrow> string" where
  "GetNodepoolLabelValue cfg nd = getNodepoolLabelValue cfg nd"

definition isNodeInWatchedNodepool :: "config \<Rightarrow> node \<Rightarrow> bool" where
  "isNodeInWatchedNodepool cfg nd =
     (let nodepoolName = getNodepoolLabelValue cfg (Some nd)
      in if nodepoolName = [] then False
         else list_ex (\<lambda>np. np_Name np = nodepoolName) (Nodepools cfg))"

definition NodeExternalIP :: string where
  "NodeExternalIP = ''ExternalIP''"

text \<open>The two sets of external addresses that the loop over \<^verbatim>\<open>Status.Addresses\<close> collects.\<close>

definition external_ip_sets :: "config \<Rightarrow> node \<Rightarrow> string set \<times> string set" where
  "external_ip_sets cfg nd =
     fold (\<lambda>address (ipv4, ipv6).
             if addr_Type address = NodeExternalIP then
               (let isIPv6 = contains (addr_Address address) '':''
                in if isIPv6 \<and> EnableIPv6 cfg then (ipv4, insert (addr_Address address) ipv6)
                   else if \<not> isIPv6 \<and> EnableIPv4 cfg then (insert (addr_Address address) ipv4, ipv6)
                   else (ipv4, ipv6))
             else (ipv4, ipv6))
       (node_Addresses nd) ({}, {})"

definition GetExternalIPs :: "config \<Rightarrow> string range_order \<Rightarrow> string range_order \<Rightarrow> node \<Rightarrow> string list result" where
  "GetExternalIPs cfg ord4 ord6 nd =
     (case external_ip_sets cfg nd of
        (ipv4Addresses, ipv6Addresses) \<Rightarrow>
          (let result = ord4 ipv4Addresses @ ord6 ipv6Addresses
           in if result = [] then
                (let requiredTypes = (if EnableIPv4 cfg then [''IPv4''] else []) @
                                     (if EnableIPv6 cfg then [''IPv6''] else [])
                 in Inl (''no external '' @ join '' or '' requiredTypes @
                         '' addresses found for node '' @ node_Name nd))
              else Inr result))"

definition GetExternalIP :: "config \<Rightarrow> string range_order \<Rightarrow> string range_order \<Rightarrow> node \<Rightarrow> string result" where
  "GetExternalIP cfg ord4 ord6 nd =
     (case GetExternalIPs cfg ord4 ord6 nd of
        Inl err \<Rightarrow> Inl err
      | Inr ips \<Rightarrow>
          (case ips of
             [] \<Rightarrow> Inl (''no suitable IP addresses found for node '' @ node_Name nd)
           | ip # _ \<Rightarrow> Inr ip))"

section \<open>Lists and events\<close>

definition GetNodesByNodepool :: "'w kube_env \<Rightarrow> config \<Rightarrow> string \<Rightarrow> 'w \<Rightarrow> node list result \<times> 'w" where
  "GetNodesByNodepool env cfg nodepoolName w =
     (case list_nodes_labelled env (NodepoolLabelKey cfg, nodepoolName) w of
        (Inl err, w') \<Rightarrow> (Inl (''failed to list nodes in nodepool '' @ nodepoolName @ '': '' @ err), w')
      | (Inr items, w') \<Rightarrow> (Inr items, w'))"

definition LogEvent ::
  "'w kube_env \<Rightarrow> string \<Rightarrow> string \<Rightarrow> string \<Rightarrow> string \<Rightarrow> 'w \<Rightarrow> go_error option \<times> 'w" where
  "LogEvent env nodeName eventType reason message w =
     (let event = \<lparr>GenerateName = nodeName @ ''-'', event_Namespace = ''default'', InvolvedKind = ''Node'',
                   InvolvedName = nodeName, event_Type = eventType, Reason = reason, Message = message,
                   Component = ''linode-database-allow-list''\<rparr>
      in case create_event env ''default'' event w of
           (Some err, w') \<Rightarrow> (Some err, w')
         | (None, w') \<Rightarrow> (None, w'))"

definition getHostname :: "'w kube_env \<Rightarrow> string" where
  "getHostname env = (case os_hostname env of Inl _ \<Rightarrow> ''unknown'' | Inr h \<Rightarrow> h)"

section \<open>The consistency checks\<close>

text \<open>The lines the checks log about a nodepool; names are listed only on a mismatch.\<close>

datatype watch_log =
    ListFailed go_error
  | PoolCount string int
  | PoolListFailed string go_error
  | CountMismatch string int int "string list" "string list"
  | CountMatch string int

definition count_by_nodepool :: "config \<Rightarrow> node list \<Rightarrow> (string \<times> int) list" where
  "count_by_nodepool cfg nodes =
     fold (\<lambda>nd counts.
             let nodepoolName = getNodepoolLabelValue cfg (Some nd)
             in if nodepoolName \<noteq> []
                then AList.update nodepoolName
                       ((case map_of counts nodepoolName of None \<Rightarrow> 0 | Some n \<Rightarrow> n) + 1) counts
                else counts)
       nodes []"

definition watched_nodepools :: "config \<Rightarrow> string set" where
  "watched_nodepools cfg = fold (\<lambda>np S. insert (np_Name np) S) (Nodepools cfg) {}"

definition check_nodepool ::
  "'w kube_env \<Rightarrow> config \<Rightarrow> node list \<Rightarrow> (string \<times> int) list \<Rightarrow> string \<Rightarrow>
   bool \<times> watch_log list \<times> 'w \<Rightarrow> bool \<times> watch_log list \<times> 'w" where
  "check_nodepool env cfg nodes counts nodepool st =
     (case st of
        (consistent, logged, w) \<Rightarrow>
          (case GetNodesByNodepool env cfg nodepool w of
             (Inl err, w') \<Rightarrow> (False, logged @ [PoolListFailed nodepool err], w')
           | (Inr cacheNodes, w') \<Rightarrow>
               (let apiCount = (case map_of counts nodepool of None \<Rightarrow> 0 | Some n \<Rightarrow> n);
                    cacheCount = int (length cacheNodes)
                in if apiCount \<noteq> cacheCount then
                     (let apiNodeNames = map node_Name
                            (filter (\<lambda>nd. getNodepoolLabelValue cfg (Some nd) = nodepool) nodes);
                          cacheNodeNames = map node_Name cacheNodes
                      in (False,
                          logged @ [CountMismatch nodepool apiCount cacheCount apiNodeNames cacheNodeNames], w'))
                   else (consistent, logged @ [CountMatch nodepool apiCount], w'))))"

definition verifyWatchConsistency ::
  "'w kube_env \<Rightarrow> config \<Rightarrow> 'w \<Rightarrow> (bool \<times> (string \<times> int) list option) \<times> watch_log list \<times> 'w" where
  "verifyWatchConsistency env cfg w =
     (case list_nodes env w of
        (Inl err, w') \<Rightarrow> ((False, None), [ListFailed err], w')
      | (Inr nodes, w') \<Rightarrow>
          (let nodepoolCounts = count_by_nodepool cfg nodes;
               watchedNodepools = watched_nodepools cfg;
               counted = map (\<lambda>nodepool. PoolCount nodepool (the (map_of nodepoolCounts nodepool)))
                 (filter (\<lambda>nodepool. nodepool \<in> watchedNodepools)
                   (pool_order env w' (set (map fst nodepoolCounts))))
           in case fold (check_nodepool env cfg nodes nodepoolCounts) (pool_order env w' watchedNodepools)
                     (True, counted, w') of
                (consistent, logged, w'') \<Rightarrow> ((consistent, Some nodepoolCounts), logged, w'')))"

text \<open>\<^verbatim>\<open>verifyWatchConnection\<close> does the same and only logs.\<close>

definition verifyWatchConnection :: "'w kube_env \<Rightarrow> config \<Rightarrow> 'w \<Rightarrow> watch_log list \<times> 'w" where
  "verifyWatchConnection env cfg w =
     (case list_nodes env w of
        (Inl err, w') \<Rightarrow> ([ListFailed err], w')
      | (Inr nodes, w') \<Rightarrow>
          (let nodepoolCounts = count_by_nodepool cfg nodes;
               watchedNodepools = watched_nodepools cfg;
               counted = map (\<lambda>nodepool. PoolCount nodepool (the (map_of nodepoolCounts nodepool)))
                 (filter (\<lambda>nodepool. nodepool \<in> watchedNodepools)
                   (pool_order env w' (set (map fst nodepoolCounts))))
           in case fold (check_nodepool env cfg nodes nodepoolCounts) (pool_order env w' watchedNodepools)
                     (True, counted, w') of
                (_, logged, w'') \<Rightarrow> (logged, w'')))"

text \<open>
  The two goroutines \<^verbatim>\<open>watchNodes\<close> starts after the cache has synced: one check, and a check at every tick
  that counts the consecutive mismatches; the flag tells whether the tick reports a broken watch.
\<close>

definition initial_verification :: "'w kube_env \<Rightarrow> config \<Rightarrow> 'w \<Rightarrow> bool \<times> 'w" where
  "initial_verification env cfg w =
     (case verifyWatchConsistency env cfg w of ((consistent, _), _, w') \<Rightarrow> (consistent, w'))"

definition verify_tick :: "'w kube_env \<Rightarrow> config \<Rightarrow> nat \<Rightarrow> 'w \<Rightarrow> bool \<times> nat \<times> 'w" where
  "verify_tick env cfg consecutiveMismatches w =
     (case verifyWatchConsistency env cfg w of
        ((consistent, _), _, w') \<Rightarrow>
          if \<not> consistent then (2 \<le> Suc consecutiveMismatches, Suc consecutiveMismatches, w') else (False, 0, w'))"

fun verify_ticks :: "'w kube_env \<Rightarrow> config \<Rightarrow> nat \<Rightarrow> nat \<Rightarrow> 'w \<Rightarrow> bool list \<times> nat \<times> 'w" where
  "verify_ticks env cfg 0 mismatches w = ([], mismatches, w)"
| "verify_ticks env cfg (Suc k) mismatches w =
     (case verify_tick env cfg mismatches w of
        (broken, mismatches', w') \<Rightarrow>
          (case verify_ticks env cfg k mismatches' w' of (reports, m, w'') \<Rightarrow> (broken # reports, m, w'')))"

section \<open>The callbacks of the informer\<close>

text \<open>
  What an informer passes to a callback: a node, or, to the delete callback, the tombstone of a
  deletion it has missed (\<^verbatim>\<open>cache.DeletedFinalStateUnknown\<close>: the key and the last known object). A type
  assertion that fails panics. Errors of the handlers are only logged.
\<close>

datatype informer_obj = NodeObj node | DeletedFinalStateUnknown string "node option"

datatype 's outcome = Returns 's | Panics string

type_synonym 's node_handler = "node \<Rightarrow> string \<Rightarrow> 's \<Rightarrow> go_error option \<times> 's"

definition AddFunc :: "config \<Rightarrow> 's node_handler \<Rightarrow> informer_obj \<Rightarrow> 's \<Rightarrow> 's outcome" where
  "AddFunc cfg addHandler obj s =
     (case obj of
        NodeObj nd \<Rightarrow>
          (if isNodeInWatchedNodepool cfg nd then Returns (snd (addHandler nd ''add'' s)) else Returns s)
      | DeletedFinalStateUnknown _ _ \<Rightarrow> Panics ''interface conversion'')"

definition update_node ::
  "config \<Rightarrow> 's node_handler \<Rightarrow> 's node_handler \<Rightarrow> node \<Rightarrow> node \<Rightarrow> 's \<Rightarrow> 's" where
  "update_node cfg addHandler delHandler oldNode newNode s =
     (let oldNodepool = getNodepoolLabelValue cfg (Some oldNode);
          newNodepool = getNodepoolLabelValue cfg (Some newNode);
          oldIsWatched = isNodeInWatchedNodepool cfg oldNode;
          newIsWatched = isNodeInWatchedNodepool cfg newNode
      in if \<not> oldIsWatched \<and> newIsWatched then snd (addHandler newNode ''add'' s)
         else if oldIsWatched \<and> \<not> newIsWatched then snd (delHandler oldNode ''delete'' s)
         else if oldIsWatched \<and> newIsWatched \<and> oldNodepool \<noteq> newNodepool
         then snd (addHandler newNode ''add'' (snd (delHandler oldNode ''delete'' s)))
         else s)"

definition UpdateFunc ::
  "config \<Rightarrow> 's node_handler \<Rightarrow> 's node_handler \<Rightarrow> informer_obj \<Rightarrow> informer_obj \<Rightarrow> 's \<Rightarrow> 's outcome" where
  "UpdateFunc cfg addHandler delHandler oldObj newObj s =
     (case (oldObj, newObj) of
        (NodeObj oldNode, NodeObj newNode) \<Rightarrow> Returns (update_node cfg addHandler delHandler oldNode newNode s)
      | _ \<Rightarrow> Panics ''interface conversion'')"

definition DeleteFunc :: "config \<Rightarrow> 's node_handler \<Rightarrow> informer_obj \<Rightarrow> 's \<Rightarrow> 's outcome" where
  "DeleteFunc cfg delHandler obj s =
     (case obj of
        NodeObj nd \<Rightarrow>
          (if isNodeInWatchedNodepool cfg nd then Returns (snd (delHandler nd ''delete'' s)) else Returns s)
      | DeletedFinalStateUnknown _ _ \<Rightarrow> Panics ''interface conversion'')"

text \<open>The notifications of an informer, dispatched to the callbacks; after a panic nothing runs.\<close>

datatype notification =
    Added informer_obj
  | Updated informer_obj informer_obj
  | Deleted informer_obj

fun notify :: "config \<Rightarrow> 's node_handler \<Rightarrow> 's node_handler \<Rightarrow> notification \<Rightarrow> 's \<Rightarrow> 's outcome" where
  "notify cfg addH delH (Added obj) s = AddFunc cfg addH obj s"
| "notify cfg addH delH (Updated oldObj newObj) s = UpdateFunc cfg addH delH oldObj newObj s"
| "notify cfg addH delH (Deleted obj) s = DeleteFunc cfg delH obj s"

fun notify_all :: "config \<Rightarrow> 's node_handler \<Rightarrow> 's node_handler \<Rightarrow> notification list \<Rightarrow> 's \<Rightarrow> 's outcome" where
  "notify_all cfg addH delH [] s = Returns s"
| "notify_all cfg addH delH (ev # evs) s =
     (case notify cfg addH delH ev s of
        Returns s' \<Rightarrow> notify_all cfg addH delH evs s'
      | Panics msg \<Rightarrow> Panics msg)"

end
