(* ===== verification/NodeWatcher.thy ===== *)
theory NodeWatcher
  imports KubeClient LinodeClient
begin

text \<open>
  \<^verbatim>\<open>cmd/nodewatcher/main.go\<close>: the handler of node events, the node-count goroutines, the logger and the
  configuration at start-up (the rest of \<^verbatim>\<open>main\<close> is in \<open>Program\<close>). The state (\<open>app\<close>) is the Linode
  client, which carries the shared metrics and the world, and the node-count goroutines that have been
  started and have not run yet. Logging is left out; the
  context of the updates is \<^verbatim>\<open>context.Background()\<close>, which is part of the runtime in \<open>linode_env\<close>.
\<close>

record 'w app =
  app_client :: "'w client"
  app_spawned :: "string list"

definition with_metrics :: "(metrics \<Rightarrow> metrics) \<Rightarrow> 'w client \<Rightarrow> 'w client" where
  "with_metrics f c = c\<lparr>client_metrics := f (client_metrics c)\<rparr>"

section \<open>Node counts\<close>

definition updateNodeCountMetrics :: "nodepool list \<Rightarrow> 'w app \<Rightarrow> 'w app" where
  "updateNodeCountMetrics nodepools a =
     a\<lparr>app_spawned := app_spawned a @ map np_Name nodepools\<rparr>"

text \<open>The body of a goroutine that \<^verbatim>\<open>updateNodeCountMetrics\<close> starts.\<close>

definition node_count_goroutine :: "'w kube_env \<Rightarrow> config \<Rightarrow> string \<Rightarrow> 'w client \<Rightarrow> 'w client" where
  "node_count_goroutine kube cfg npName c =
     (case GetNodesByNodepool kube cfg npName (world c) of
        (Inl err, w) \<Rightarrow> c\<lparr>world := w\<rparr>
      | (Inr nodes, w) \<Rightarrow> with_metrics (UpdateNodesWatched npName (int (length nodes))) (c\<lparr>world := w\<rparr>))"

text \<open>The scheduler runs the started goroutine number \<open>i\<close>.\<close>

definition run_spawned :: "'w kube_env \<Rightarrow> config \<Rightarrow> nat \<Rightarrow> 'w app \<Rightarrow> 'w app" where
  "run_spawned kube cfg i a =
     (if i < length (app_spawned a)
      then \<lparr>app_client = node_count_goroutine kube cfg (app_spawned a ! i) (app_client a),
            app_spawned = take i (app_spawned a) @ drop (Suc i) (app_spawned a)\<rparr>
      else a)"

section \<open>The handler of node events\<close>

text \<open>One round of the loop over the addresses.\<close>

definition process_ip ::
  "'w linode_env \<Rightarrow> config \<Rightarrow> string \<Rightarrow> string \<Rightarrow> string \<Rightarrow> string \<Rightarrow> 'w client \<Rightarrow> go_error option \<times> 'w client" where
  "process_ip lin cfg nodepoolName nodeName eventType ip c =
     (case UpdateAllowList lin cfg nodepoolName nodeName ip eventType c of
        (Some ipErr, c') \<Rightarrow>
          (let errorType = (if contains ipErr ''no databases configured'' then ''configuration_error''
                            else ''api_error'')
           in (Some ipErr, with_metrics (IncrementNodeProcessingErrors nodepoolName eventType errorType) c'))
      | (None, c') \<Rightarrow> (None, c'))"

definition handleNodeEvent ::
  "'w linode_env \<Rightarrow> 'w kube_env \<Rightarrow> config \<Rightarrow> node \<Rightarrow> string \<Rightarrow> 'w app \<Rightarrow> go_error option \<times> 'w app" where
  "handleNodeEvent lin kube cfg nd eventType a =
     (let nodeName = node_Name nd;
          nodepoolName = GetNodepoolLabelValue cfg (Some nd);
          c = (if eventType = ''add'' then with_metrics (IncrementNodeAdds nodepoolName) (app_client a)
               else with_metrics (IncrementNodeDeletes nodepoolName) (app_client a))
      in case GetExternalIPs cfg (ipv4_order kube (world c)) (ipv6_order kube (world c)) nd of
           Inl err \<Rightarrow>
             (Some err, a\<lparr>app_client := with_metrics
                (IncrementNodeProcessingErrors nodepoolName eventType ''ip_extraction_failure'') c\<rparr>)
         | Inr ips \<Rightarrow>
             (case loop_last_err (process_ip lin cfg nodepoolName nodeName eventType) ips None c of
                (Some lastErr, c') \<Rightarrow>
                  (let message = ''Failed to update database allow lists for some IPs: '' @ lastErr
                   in case LogEvent kube nodeName ''Warning'' ''AllowListUpdateFailed'' message (world c') of
                        (_, w) \<Rightarrow> (Some lastErr, a\<lparr>app_client := c'\<lparr>world := w\<rparr>\<rparr>))
              | (None, c') \<Rightarrow>
                  (let message = (if eventType = ''add''
                                  then ''Added node IPs '' @ show_strings ips @ '' to database allow lists''
                                  else ''Scheduled removal of node IPs '' @ show_strings ips @
                                       '' from database allow lists'')
                   in case LogEvent kube nodeName ''Normal'' ''AllowListUpdated'' message (world c') of
                        (_, w) \<Rightarrow>
                          (None, updateNodeCountMetrics (Nodepools cfg) (a\<lparr>app_client := c'\<lparr>world := w\<rparr>\<rparr>)))))"

text \<open>The handlers that \<^verbatim>\<open>main\<close> registers; each fixes the event type itself.\<close>

definition add_handler :: "'w linode_env \<Rightarrow> 'w kube_env \<Rightarrow> config \<Rightarrow> 'w app node_handler" where
  "add_handler lin kube cfg nd eventType a = handleNodeEvent lin kube cfg nd ''add'' a"

definition delete_handler :: "'w linode_env \<Rightarrow> 'w kube_env \<Rightarrow> config \<Rightarrow> 'w app node_handler" where
  "delete_handler lin kube cfg nd eventType a = handleNodeEvent lin kube cfg nd ''delete'' a"

section \<open>Start-up\<close>

datatype zap_level = DebugLevel | InfoLevel | WarnLevel | ErrorLevel

text \<open>
  \<^verbatim>\<open>initLogger\<close> with its optional argument; \<open>build\<close> is \<^verbatim>\<open>config.Build()\<close> of zap. A production configuration
  starts at level info.
\<close>

definition initLogger :: "os_env \<Rightarrow> (zap_level \<Rightarrow> go_error option) \<Rightarrow> string option \<Rightarrow> zap_level result" where
  "initLogger os build logLevel =
     (let level =
        (if logLevel \<noteq> None \<and> the logLevel \<noteq> [] then
           (if the logLevel = ''debug'' then DebugLevel
            else if the logLevel = ''info'' then InfoLevel
            else if the logLevel = ''warn'' then WarnLevel
            else if the logLevel = ''error'' then ErrorLevel
            else InfoLevel)
         else if getenv os ''DEBUG'' = ''true'' then DebugLevel
         else InfoLevel)
      in case build level of Some err \<Rightarrow> Inl err | None \<Rightarrow> Inr level)"

text \<open>The part of \<^verbatim>\<open>main\<close> before the servers start: \<open>Inl\<close> is the message the process exits with.\<close>

definition main_config ::
  "os_env \<Rightarrow> (zap_level \<Rightarrow> go_error option) \<Rightarrow> string \<Rightarrow> string \<Rightarrow> (config \<times> zap_level) result" where
  "main_config os build configFile logLevel =
     (case initLogger os build None of
        Inl err \<Rightarrow> Inl (''Failed to initialize logger: '' @ err)
      | Inr _ \<Rightarrow>
          (case Load os configFile of
             Inl err \<Rightarrow> Inl ''Failed to load configuration''
           | Inr cfg \<Rightarrow>
               (case initLogger os build (Some (LogLevel cfg)) of
                  Inl err \<Rightarrow> Inl (''Failed to re-initialize logger with configured log level: '' @ err)
                | Inr level \<Rightarrow>
                    (if logLevel \<noteq> [] then
                       (let cfg' = cfg\<lparr>LogLevel := to_lower logLevel\<rparr>
                        in case initLogger os build (Some (LogLevel cfg')) of
                             Inl err \<Rightarrow> Inl (''Failed to re-initialize logger: '' @ err)
                           | Inr level' \<Rightarrow> Inr (cfg', level'))
                     else Inr (cfg, level)))))"

end
