(* ===== verification/NodeTracking.thy ===== *)
theory NodeTracking
  imports KubeClient
begin

text \<open>
  What the node callbacks do to their handlers over a stream of notifications: the handlers as an
  interface (a locale), the streams an informer delivers, and the properties of the callbacks, of the
  address lists and of the consistency check.
\<close>

section \<open>The handlers as an interface\<close>

text \<open>A pure operation on an abstract state as a handler, and the callbacks over such handlers.\<close>

definition pure_handler :: "(node \<Rightarrow> 'a \<Rightarrow> 'a) \<Rightarrow> 'a node_handler" where
  "pure_handler f nd ev a = (None, f nd a)"

fun abs_notify :: "config \<Rightarrow> (node \<Rightarrow> 'a \<Rightarrow> 'a) \<Rightarrow> (node \<Rightarrow> 'a \<Rightarrow> 'a) \<Rightarrow> notification \<Rightarrow> 'a \<Rightarrow> 'a" where
  "abs_notify cfg fa fd (Added (NodeObj nd)) a = (if isNodeInWatchedNodepool cfg nd then fa nd a else a)"
| "abs_notify cfg fa fd (Updated (NodeObj old) (NodeObj new)) a =
     update_node cfg (pure_handler fa) (pure_handler fd) old new a"
| "abs_notify cfg fa fd (Deleted (NodeObj nd)) a = (if isNodeInWatchedNodepool cfg nd then fd nd a else a)"
| "abs_notify cfg fa fd ev a = a"

fun is_node :: "informer_obj \<Rightarrow> bool" where
  "is_node (NodeObj nd) = True"
| "is_node (DeletedFinalStateUnknown key obj) = False"

fun about_nodes :: "notification \<Rightarrow> bool" where
  "about_nodes (Added obj) = is_node obj"
| "about_nodes (Updated oldObj newObj) = (is_node oldObj \<and> is_node newObj)"
| "about_nodes (Deleted obj) = is_node obj"

text \<open>
  Handlers that keep an invariant and act on an abstraction of their state: then every stream of
  notifications about nodes returns, keeps the invariant and acts on the abstraction.
\<close>

locale node_handlers =
  fixes cfg :: config
    and addH :: "'s node_handler" and delH :: "'s node_handler"
    and I :: "'s \<Rightarrow> bool" and abs :: "'s \<Rightarrow> 'a"
    and abs_add :: "node \<Rightarrow> 'a \<Rightarrow> 'a" and abs_del :: "node \<Rightarrow> 'a \<Rightarrow> 'a"
  assumes add_inv: "I s \<Longrightarrow> isNodeInWatchedNodepool cfg nd \<Longrightarrow> I (snd (addH nd ''add'' s))"
    and del_inv: "I s \<Longrightarrow> isNodeInWatchedNodepool cfg nd \<Longrightarrow> I (snd (delH nd ''delete'' s))"
    and add_abs: "I s \<Longrightarrow> isNodeInWatchedNodepool cfg nd \<Longrightarrow> abs (snd (addH nd ''add'' s)) = abs_add nd (abs s)"
    and del_abs: "I s \<Longrightarrow> isNodeInWatchedNodepool cfg nd \<Longrightarrow> abs (snd (delH nd ''delete'' s)) = abs_del nd (abs s)"
begin

lemma update_refines:
  assumes "I s"
  shows "I (update_node cfg addH delH old new s) \<and>
    abs (update_node cfg addH delH old new s) =
      update_node cfg (pure_handler abs_add) (pure_handler abs_del) old new (abs s)"
  using assms by (auto simp: update_node_def Let_def pure_handler_def add_inv del_inv add_abs del_abs)

lemma notify_refines:
  assumes "I s" and "about_nodes ev"
  shows "\<exists>s'. notify cfg addH delH ev s = Returns s' \<and> I s' \<and> abs s' = abs_notify cfg abs_add abs_del ev (abs s)"
  using assms
proof (cases ev)
  case (Added obj)
  then show ?thesis using assms by (cases obj) (auto simp: AddFunc_def add_inv add_abs)
next
  case (Updated oldObj newObj)
  then show ?thesis using assms update_refines [OF assms(1)]
    by (cases oldObj; cases newObj) (auto simp: UpdateFunc_def)
next
  case (Deleted obj)
  then show ?thesis using assms by (cases obj) (auto simp: DeleteFunc_def del_inv del_abs)
qed

lemma notify_all_refines:
  assumes "I s" and "\<forall>ev \<in> set evs. about_nodes ev"
  shows "\<exists>s'. notify_all cfg addH delH evs s = Returns s' \<and> I s' \<and>
    abs s' = fold (abs_notify cfg abs_add abs_del) evs (abs s)"
  using assms
proof (induction evs arbitrary: s)
  case (Cons ev evs)
  obtain s1 where s1: "notify cfg addH delH ev s = Returns s1" "I s1"
    "abs s1 = abs_notify cfg abs_add abs_del ev (abs s)"
    using notify_refines [of s ev] Cons.prems by auto
  then show ?case using Cons.IH [of s1] Cons.prems(2) by simp
qed simp

end

section \<open>The streams of an informer\<close>

text \<open>
  The store of an informer maps names to the last object seen. It notifies of a name it does not hold
  with \<open>Added\<close>, of one it holds with \<open>Updated\<close> (the held object first) or \<open>Deleted\<close>.
\<close>

fun deliver :: "notification \<Rightarrow> (string \<rightharpoonup> node) \<Rightarrow> (string \<rightharpoonup> node) option" where
  "deliver (Added (NodeObj nd)) st = (if st (node_Name nd) = None then Some (st(node_Name nd \<mapsto> nd)) else None)"
| "deliver (Updated (NodeObj old) (NodeObj new)) st =
     (if st (node_Name old) = Some old \<and> node_Name new = node_Name old then Some (st(node_Name new \<mapsto> new)) else None)"
| "deliver (Deleted (NodeObj nd)) st =
     (if st (node_Name nd) = Some nd then Some (st(node_Name nd := None)) else None)"
| "deliver ev st = None"

fun deliver_all :: "notification list \<Rightarrow> (string \<rightharpoonup> node) \<Rightarrow> (string \<rightharpoonup> node) option" where
  "deliver_all [] st = Some st"
| "deliver_all (ev # evs) st = (case deliver ev st of None \<Rightarrow> None | Some st' \<Rightarrow> deliver_all evs st')"

lemma deliver_about_nodes: "deliver ev st = Some st' \<Longrightarrow> about_nodes ev"
  by (cases "(ev, st)" rule: deliver.cases) auto

lemma deliver_all_about_nodes: "deliver_all evs st = Some st' \<Longrightarrow> \<forall>ev \<in> set evs. about_nodes ev"
  by (induction evs arbitrary: st) (auto split: option.splits dest: deliver_about_nodes)

lemma deliver_all_append:
  "deliver_all (evs @ evs') st = (case deliver_all evs st of None \<Rightarrow> None | Some st' \<Rightarrow> deliver_all evs' st')"
  by (induction evs arbitrary: st) (auto split: option.splits)

text \<open>
  A ledger of the handler calls that accepts an add only of a node that is not entered, and a delete
  only of a node entered with the nodepool it is deleted from.
\<close>

type_synonym ledger = "(string \<rightharpoonup> string) option"

definition ledger_add :: "config \<Rightarrow> node \<Rightarrow> ledger \<Rightarrow> ledger" where
  "ledger_add cfg nd l =
     (case l of None \<Rightarrow> None
      | Some t \<Rightarrow> if t (node_Name nd) = None
                  then Some (t(node_Name nd \<mapsto> getNodepoolLabelValue cfg (Some nd))) else None)"

definition ledger_del :: "config \<Rightarrow> node \<Rightarrow> ledger \<Rightarrow> ledger" where
  "ledger_del cfg nd l =
     (case l of None \<Rightarrow> None
      | Some t \<Rightarrow> if t (node_Name nd) = Some (getNodepoolLabelValue cfg (Some nd))
                  then Some (t(node_Name nd := None)) else None)"

interpretation ledger: node_handlers cfg
  "pure_handler (ledger_add cfg)" "pure_handler (ledger_del cfg)" "\<lambda>_. True" "\<lambda>l. l"
  "ledger_add cfg" "ledger_del cfg" for cfg
  by unfold_locales (simp_all add: pure_handler_def)

definition watched_pool :: "config \<Rightarrow> node \<Rightarrow> string option" where
  "watched_pool cfg nd =
     (if isNodeInWatchedNodepool cfg nd then Some (getNodepoolLabelValue cfg (Some nd)) else None)"

definition memberships :: "config \<Rightarrow> (string \<rightharpoonup> node) \<Rightarrow> (string \<rightharpoonup> string)" where
  "memberships cfg st = (\<lambda>name. case st name of None \<Rightarrow> None | Some nd \<Rightarrow> watched_pool cfg nd)"

lemma memberships_upd [simp]:
  "memberships cfg (st(n \<mapsto> nd)) = (memberships cfg st)(n := watched_pool cfg nd)"
  "memberships cfg (st(n := None)) = (memberships cfg st)(n := None)"
  by (auto simp: memberships_def)

lemma memberships_Some: "st n = Some nd \<Longrightarrow> memberships cfg st n = watched_pool cfg nd"
  and memberships_None: "st n = None \<Longrightarrow> memberships cfg st n = None"
  by (simp_all add: memberships_def)

lemma ledger_step:
  assumes "deliver ev st = Some st'"
  shows "abs_notify cfg (ledger_add cfg) (ledger_del cfg) ev (Some (memberships cfg st)) =
    Some (memberships cfg st')"
  using assms
proof (cases "(ev, st)" rule: deliver.cases)
  case (1 nd st0)
  then have "st (node_Name nd) = None" "st' = st(node_Name nd \<mapsto> nd)"
    using assms by (auto split: if_splits)
  then show ?thesis using 1
    by (auto simp: memberships_None watched_pool_def ledger_add_def fun_upd_idem)
next
  case (2 old new st0)
  then have "st (node_Name old) = Some old" "node_Name new = node_Name old" "st' = st(node_Name old \<mapsto> new)"
    using assms by (auto split: if_splits)
  then show ?thesis using 2
    by (auto simp: update_node_def Let_def pure_handler_def memberships_Some watched_pool_def
        ledger_add_def ledger_del_def fun_upd_idem)
next
  case (3 nd st0)
  then have "st (node_Name nd) = Some nd" "st' = st(node_Name nd := None)"
    using assms by (auto split: if_splits)
  then show ?thesis using 3
    by (auto simp: memberships_Some watched_pool_def ledger_del_def fun_upd_idem)
qed auto

lemma ledger_run:
  "deliver_all evs st = Some st' \<Longrightarrow>
   fold (abs_notify cfg (ledger_add cfg) (ledger_del cfg)) evs (Some (memberships cfg st)) =
     Some (memberships cfg st')"
  by (induction evs arbitrary: st) (auto split: option.splits simp: ledger_step)

section \<open>External addresses\<close>

definition family_enabled :: "config \<Rightarrow> string \<Rightarrow> bool" where
  "family_enabled cfg ip \<longleftrightarrow> (if CHR '':'' \<in> set ip then EnableIPv6 cfg else EnableIPv4 cfg)"

definition external_ips :: "config \<Rightarrow> node \<Rightarrow> string set" where
  "external_ips cfg nd =
     {addr_Address a | a. a \<in> set (node_Addresses nd) \<and> addr_Type a = NodeExternalIP \<and>
        family_enabled cfg (addr_Address a)}"

lemma external_ip_sets_eq:
  "external_ip_sets cfg nd =
    ({ip \<in> external_ips cfg nd. CHR '':'' \<notin> set ip}, {ip \<in> external_ips cfg nd. CHR '':'' \<in> set ip})"
proof -
  let ?f = "\<lambda>address (ipv4, ipv6).
     if addr_Type address = NodeExternalIP then
       (let isIPv6 = contains (addr_Address address) '':''
        in if isIPv6 \<and> EnableIPv6 cfg then (ipv4, insert (addr_Address address) ipv6)
           else if \<not> isIPv6 \<and> EnableIPv4 cfg then (insert (addr_Address address) ipv4, ipv6)
           else (ipv4, ipv6))
     else (ipv4, ipv6)"
  have "fold ?f as (A, B) =
    (A \<union> {addr_Address a | a. a \<in> set as \<and> addr_Type a = NodeExternalIP \<and> EnableIPv4 cfg \<and> CHR '':'' \<notin> set (addr_Address a)},
     B \<union> {addr_Address a | a. a \<in> set as \<and> addr_Type a = NodeExternalIP \<and> EnableIPv6 cfg \<and> CHR '':'' \<in> set (addr_Address a)})"
    for as A B
    by (induction as arbitrary: A B) (auto simp: Let_def)
  from this [of "node_Addresses nd" "{}" "{}"] show ?thesis
    unfolding external_ip_sets_def external_ips_def family_enabled_def by auto
qed

lemma finite_external_ips [simp]: "finite (external_ips cfg nd)"
proof -
  have "external_ips cfg nd \<subseteq> addr_Address ` set (node_Addresses nd)" by (auto simp: external_ips_def)
  then show ?thesis by (rule finite_subset) simp
qed

lemma GetExternalIPs_spec:
  assumes "range_order_ok ord4" and "range_order_ok ord6"
  shows "case GetExternalIPs cfg ord4 ord6 nd of
      Inl err \<Rightarrow> external_ips cfg nd = {}
    | Inr ips \<Rightarrow> ips \<noteq> [] \<and> set ips = external_ips cfg nd \<and> distinct ips"
proof -
  let ?l = "ord4 {ip \<in> external_ips cfg nd. CHR '':'' \<notin> set ip} @ ord6 {ip \<in> external_ips cfg nd. CHR '':'' \<in> set ip}"
  have "set ?l = external_ips cfg nd" and "distinct ?l" using assms by auto
  moreover have "?l = [] \<longleftrightarrow> set ?l = {}" by auto
  ultimately show ?thesis unfolding GetExternalIPs_def external_ip_sets_eq by (simp add: Let_def)
qed

section \<open>Counting nodes\<close>

lemma count_by_nodepool_value:
  "(case map_of (count_by_nodepool cfg nodes) p of None \<Rightarrow> 0 | Some n \<Rightarrow> n) =
     (if p = [] then 0 else int (length (filter (\<lambda>nd. getNodepoolLabelValue cfg (Some nd) = p) nodes)))"
proof -
  have "(case map_of (count_by_nodepool cfg (rev nodes)) p of None \<Rightarrow> 0 | Some n \<Rightarrow> n) =
     (if p = [] then 0 else int (length (filter (\<lambda>nd. getNodepoolLabelValue cfg (Some nd) = p) nodes)))" for nodes
    by (induction nodes) (auto simp: count_by_nodepool_def Let_def update_conv')
  from this [of "rev nodes"] show ?thesis by (simp add: rev_filter [symmetric])
qed

lemma watched_nodepools_eq: "watched_nodepools cfg = np_Name ` set (Nodepools cfg)"
  by (simp add: watched_nodepools_def fold_insert_image)

definition has_label :: "string \<Rightarrow> string \<Rightarrow> node \<Rightarrow> bool" where
  "has_label k v nd = (case node_Labels nd of None \<Rightarrow> False | Some ls \<Rightarrow> ls k = Some v)"

text \<open>An API in which the labelled list is the part of the full list with that label, at any time.\<close>

definition api_lists :: "'w kube_env \<Rightarrow> config \<Rightarrow> ('w \<Rightarrow> node list) \<Rightarrow> bool" where
  "api_lists env cfg N \<longleftrightarrow>
     (\<forall>w r w'. list_nodes env w = (r, w') \<longrightarrow> r = Inr (N w) \<and> N w' = N w) \<and>
     (\<forall>p w r w'. list_nodes_labelled env (NodepoolLabelKey cfg, p) w = (r, w') \<longrightarrow>
        r = Inr (filter (has_label (NodepoolLabelKey cfg) p) (N w)) \<and> N w' = N w)"

lemma label_filter:
  "p \<noteq> [] \<Longrightarrow> has_label (NodepoolLabelKey cfg) p = (\<lambda>nd. getNodepoolLabelValue cfg (Some nd) = p)"
  by (auto simp: has_label_def getNodepoolLabelValue_def fun_eq_iff split: option.splits)

lemma GetNodesByNodepool_api:
  assumes "api_lists env cfg N" and "p \<noteq> []" and "GetNodesByNodepool env cfg p w = (r, w')"
  shows "r = Inr (filter (\<lambda>nd. getNodepoolLabelValue cfg (Some nd) = p) (N w)) \<and> N w' = N w"
proof -
  obtain q v where l: "list_nodes_labelled env (NodepoolLabelKey cfg, p) w = (q, v)" by fastforce
  have "q = Inr (filter (has_label (NodepoolLabelKey cfg) p) (N w))"
    and "N v = N w"
    using assms(1) l unfolding api_lists_def by blast+
  then show ?thesis using assms(3) l by (simp add: GetNodesByNodepool_def label_filter [OF assms(2)])
qed

lemma check_nodepool_api:
  assumes "api_lists env cfg N" and "p \<noteq> []" and "N w = nodes"
  shows "\<exists>logged' w'. check_nodepool env cfg nodes (count_by_nodepool cfg nodes) p (b, logged, w) = (b, logged', w') \<and>
    N w' = nodes"
proof -
  obtain r w' where g: "GetNodesByNodepool env cfg p w = (r, w')" by fastforce
  from GetNodesByNodepool_api [OF assms(1,2) g]
  show ?thesis using assms(2,3) g count_by_nodepool_value [of cfg nodes p]
    by (simp add: check_nodepool_def Let_def)
qed

lemma check_nodepools_api:
  assumes "api_lists env cfg N" and "[] \<notin> set ps" and "N w = nodes"
  shows "\<exists>logged' w'. fold (check_nodepool env cfg nodes (count_by_nodepool cfg nodes)) ps (b, logged, w) =
    (b, logged', w')"
  using assms(2,3)
proof (induction ps arbitrary: logged w)
  case (Cons p ps)
  then show ?case using check_nodepool_api [OF assms(1), of p w nodes b logged] by fastforce
qed simp

lemma consistency_check_is_blind:
  assumes "api_lists env cfg N" and "range_order_ok (pool_order env (snd (list_nodes env w)))"
    and "[] \<notin> np_Name ` set (Nodepools cfg)"
  shows "\<exists>counts. fst (verifyWatchConsistency env cfg w) = (True, Some counts) \<and>
    (p \<noteq> [] \<longrightarrow> (case map_of counts p of None \<Rightarrow> 0 | Some n \<Rightarrow> n) =
       int (length (filter (\<lambda>nd. getNodepoolLabelValue cfg (Some nd) = p) (N w))))"
proof -
  obtain r w' where l: "list_nodes env w = (r, w')" by fastforce
  have r: "r = Inr (N w)" and w': "N w' = N w" using assms(1) l unfolding api_lists_def by blast+
  let ?ps = "pool_order env w' (watched_nodepools cfg)"
  have "[] \<notin> set ?ps"
    using assms(2,3) l by (simp add: watched_nodepools_eq)
  from check_nodepools_api [OF assms(1) this w'] obtain logged' w'' where
    "fold (check_nodepool env cfg (N w) (count_by_nodepool cfg (N w))) ?ps
       (True, map (\<lambda>nodepool. PoolCount nodepool (the (map_of (count_by_nodepool cfg (N w)) nodepool)))
          (filter (\<lambda>nodepool. nodepool \<in> watched_nodepools cfg)
            (pool_order env w' (set (map fst (count_by_nodepool cfg (N w)))))), w') = (True, logged', w'')"
    by blast
  then have "fst (verifyWatchConsistency env cfg w) = (True, Some (count_by_nodepool cfg (N w)))"
    by (simp add: verifyWatchConsistency_def l r Let_def)
  then show ?thesis using count_by_nodepool_value [of cfg "N w" p] by auto
qed

lemma verify_ticks_silent:
  assumes "api_lists env cfg N" and "\<forall>w. range_order_ok (pool_order env w)" and "[] \<notin> np_Name ` set (Nodepools cfg)"
  shows "\<exists>w'. verify_ticks env cfg k 0 w = (replicate k False, 0, w')"
proof (induction k arbitrary: w)
  case (Suc k)
  have "fst (fst (verifyWatchConsistency env cfg w))"
    using consistency_check_is_blind [OF assms(1) assms(2) [rule_format] assms(3), of w "[]"] by (metis fst_conv)
  then obtain counts logged w1 where "verifyWatchConsistency env cfg w = ((True, counts), logged, w1)"
    by (cases "verifyWatchConsistency env cfg w") auto
  then show ?case using Suc.IH [of w1] by (auto simp: verify_tick_def)
qed simp

section \<open>Properties\<close>

text \<open>Nodes and a configuration for the witnesses.\<close>

definition demo_node :: "string \<Rightarrow> string \<Rightarrow> string list \<Rightarrow> node" where
  "demo_node name pool ips =
     \<lparr>node_Name = name, node_Labels = Some [''lke.linode.com/pool-id'' \<mapsto> pool],
      node_Addresses = map (\<lambda>ip. \<lparr>addr_Type = ''ExternalIP'', addr_Address = ip\<rparr>) ips\<rparr>"

definition demo_watch :: config where
  "demo_watch = DefaultConfig\<lparr>Nodepools :=
     [\<lparr>np_Name = ''a'', np_Databases = []\<rparr>, \<lparr>np_Name = ''b'', np_Databases = []\<rparr>]\<rparr>"

definition demo_api :: "node list \<Rightarrow> unit kube_env" where
  "demo_api nodes =
     \<lparr>list_nodes = (\<lambda>w. (Inr nodes, w)),
      list_nodes_labelled = (\<lambda>(k, v) w.
(Inr (filter (has_label k v) nodes), w)),
      create_event = (\<lambda>ns ev w. (None, w)), os_hostname = Inr ''host'',
      ipv4_order = (\<lambda>_. sorted_list_of_set), ipv6_order = (\<lambda>_. sorted_list_of_set),
      pool_order = (\<lambda>_. sorted_list_of_set)\<rparr>"

lemma demo_label [simp]: "getNodepoolLabelValue demo_watch (Some (demo_node name pool ips)) = pool"
  by (simp add: getNodepoolLabelValue_def demo_node_def demo_watch_def DefaultConfig_def)

lemma demo_watched [simp]: "isNodeInWatchedNodepool demo_watch (demo_node name pool ips) \<longleftrightarrow> pool \<in> {''a'', ''b''}"
  by (auto simp: isNodeInWatchedNodepool_def) (auto simp: demo_watch_def)

lemma demo_node_Name [simp]: "node_Name (demo_node name pool ips) = name"
  by (simp add: demo_node_def)

lemma demo_api_lists: "api_lists (demo_api nodes) cfg (\<lambda>_. nodes)"
  by (simp add: api_lists_def demo_api_def)

text \<open>
  C9. For every stream of notifications an informer can deliver from an empty store, the callbacks call
  the handlers consistently: a node is added only when it is not a member of a watched nodepool, and
  deleted only from the nodepool it was added to; at the end the nodes added and not deleted are
  exactly the stored nodes in watched nodepools, each with its nodepool.
\<close>

theorem node_calls_match_memberships:
  assumes "deliver_all evs Map.empty = Some st"
  shows "notify_all cfg (pure_handler (ledger_add cfg)) (pure_handler (ledger_del cfg)) evs (Some Map.empty) =
    Returns (Some (\<lambda>name. case st name of
      None \<Rightarrow> None
    | Some nd \<Rightarrow> if isNodeInWatchedNodepool cfg nd then Some (getNodepoolLabelValue cfg (Some nd)) else None))"
proof -
  have "memberships cfg Map.empty = Map.empty" by (simp add: memberships_def)
  moreover have "notify_all cfg (pure_handler (ledger_add cfg)) (pure_handler (ledger_del cfg)) evs (Some Map.empty) =
      Returns (fold (abs_notify cfg (ledger_add cfg) (ledger_del cfg)) evs (Some Map.empty))"
    using ledger.notify_all_refines [OF TrueI deliver_all_about_nodes [OF assms]] by blast
  ultimately show ?thesis
    using ledger_run [OF assms, of cfg]
    by (simp add: memberships_def [of cfg st] watched_pool_def cong: case_congs)
qed

theorem node_calls_match_memberships_witness:
  "notify_all demo_watch (pure_handler (ledger_add demo_watch)) (pure_handler (ledger_del demo_watch))
     [Added (NodeObj (demo_node ''n'' ''a'' [])), Updated (NodeObj (demo_node ''n'' ''a'' [])) (NodeObj (demo_node ''n'' ''b'' []))]
     (Some Map.empty) = Returns (Some [''n'' \<mapsto> ''b''])"
proof -
  have "deliver_all [Added (NodeObj (demo_node ''n'' ''a'' [])),
      Updated (NodeObj (demo_node ''n'' ''a'' [])) (NodeObj (demo_node ''n'' ''b'' []))] Map.empty =
    Some [''n'' \<mapsto> demo_node ''n'' ''b'' []]" by simp
  from node_calls_match_memberships [OF this, of demo_watch] show ?thesis
    by (auto simp: fun_eq_iff split: option.splits)
qed

text \<open>
  C37. The callbacks panic exactly when an informer passes a tombstone
  (\<^verbatim>\<open>cache.DeletedFinalStateUnknown\<close>, which client-go passes to the delete callback for a deletion it has
  missed): the type assertion is not checked.
\<close>

theorem callbacks_panic_on_tombstones:
  "(\<exists>msg. notify_all cfg addH delH evs s = Panics msg) \<longleftrightarrow> \<not> list_all about_nodes evs"
proof (induction evs arbitrary: s)
  case (Cons ev evs)
  have "(\<exists>s'. notify cfg addH delH ev s = Returns s') \<longleftrightarrow> about_nodes ev"
  proof (cases ev)
    case (Updated oldObj newObj)
    then show ?thesis by (cases oldObj; cases newObj) (simp_all add: UpdateFunc_def)
  qed (auto simp: AddFunc_def DeleteFunc_def split: informer_obj.splits)
  then show ?case using Cons.IH by (cases "notify cfg addH delH ev s") auto
qed simp

text \<open>
  An update that keeps the nodepool label calls no handler, whatever else has changed: a node that
  changes its addresses, or gets its external address after it was added, keeps its old entries in the
  allow lists.
\<close>

theorem address_change_is_ignored:
  assumes "getNodepoolLabelValue cfg (Some new) = getNodepoolLabelValue cfg (Some old)"
  shows "UpdateFunc cfg addH delH (NodeObj old) (NodeObj new) s = Returns s"
  using assms by (simp add: UpdateFunc_def update_node_def isNodeInWatchedNodepool_def Let_def)

theorem address_change_is_ignored_witness:
  "UpdateFunc demo_watch addH delH (NodeObj (demo_node ''n'' ''a'' [])) (NodeObj (demo_node ''n'' ''a'' [''192.0.2.9'']))
     (0 :: nat) = Returns 0"
  by (rule address_change_is_ignored) simp

text \<open>
  C35. \<^verbatim>\<open>GetExternalIPs\<close> returns each external address of an enabled family once (IPv4 before IPv6), and an
  error exactly when there is none; \<^verbatim>\<open>GetExternalIP\<close> returns the first of them.
\<close>

theorem GetExternalIPs_returns_enabled_addresses:
  assumes "range_order_ok ord4" and "range_order_ok ord6"
  shows "(case GetExternalIPs cfg ord4 ord6 nd of
      Inl err \<Rightarrow> external_ips cfg nd = {} \<and> GetExternalIP cfg ord4 ord6 nd = Inl err
    | Inr ips \<Rightarrow> ips \<noteq> [] \<and> distinct ips \<and> set ips = external_ips cfg nd \<and>
        GetExternalIP cfg ord4 ord6 nd = Inr (hd ips) \<and>
        (\<exists>v4 v6. ips = v4 @ v6 \<and> list_all (\<lambda>ip. CHR '':'' \<notin> set ip) v4 \<and> list_all (\<lambda>ip. CHR '':'' \<in> set ip) v6))"
proof (cases "GetExternalIPs cfg ord4 ord6 nd")
  case (Inl err)
  then show ?thesis using GetExternalIPs_spec [OF assms, of cfg nd] by (simp add: GetExternalIP_def)
next
  case (Inr ips)
  have "ips = ord4 {ip \<in> external_ips cfg nd. CHR '':'' \<notin> set ip} @ ord6 {ip \<in> external_ips cfg nd. CHR '':'' \<in> set ip}"
    using Inr unfolding GetExternalIPs_def external_ip_sets_eq by (auto simp: Let_def split: if_splits)
  moreover have "list_all (\<lambda>ip. CHR '':'' \<notin> set ip) (ord4 {ip \<in> external_ips cfg nd. CHR '':'' \<notin> set ip})"
    and "list_all (\<lambda>ip. CHR '':'' \<in> set ip) (ord6 {ip \<in> external_ips cfg nd. CHR '':'' \<in> set ip})"
    using assms by (simp_all add: list_all_iff)
  ultimately show ?thesis using Inr GetExternalIPs_spec [OF assms, of cfg nd]
    by (auto simp: GetExternalIP_def split: list.splits)
qed

theorem GetExternalIPs_returns_enabled_addresses_witness:
  "GetExternalIP demo_watch sorted_list_of_set sorted_list_of_set (demo_node ''n'' ''a'' [''::1'', ''192.0.2.9'']) =
     Inr ''192.0.2.9''"
proof -
  have "GetExternalIPs demo_watch sorted_list_of_set sorted_list_of_set (demo_node ''n'' ''a'' [''::1'', ''192.0.2.9'']) =
      Inr [''192.0.2.9'']" by code_simp
  with GetExternalIPs_returns_enabled_addresses [OF range_order_sorted_list_of_set range_order_sorted_list_of_set,
      of demo_watch "demo_node ''n'' ''a'' [''::1'', ''192.0.2.9'']"]
  show ?thesis by simp
qed



end
