(* ===== verification/NodeMirror.thy ===== *)
theory NodeMirror
  imports NodeWatcher NodeTracking AllowListProps
begin

text \<open>
  The program from the informer to the allow lists: the handler of node events refines an operation on
  sets of addresses, so a stream of node events does; and over the streams an informer delivers the
  allow lists mirror the nodes.
\<close>

section \<open>The abstract state\<close>

text \<open>The addresses each database admits, and what the handlers do to them.\<close>

type_synonym admitted = "string \<rightharpoonup> string set"

definition node_entries :: "config \<Rightarrow> node \<Rightarrow> string set" where
  "node_entries cfg nd = normalizeIP ` external_ips cfg nd"

definition node_dbs :: "config \<Rightarrow> node \<Rightarrow> string set" where
  "node_dbs cfg nd = pool_dbs cfg (getNodepoolLabelValue cfg (Some nd))"

definition admit :: "config \<Rightarrow> node \<Rightarrow> admitted \<Rightarrow> admitted" where
  "admit cfg nd A = (\<lambda>d. if d \<in> node_dbs cfg nd then map_option (\<lambda>S. S \<union> node_entries cfg nd) (A d) else A d)"

definition revoke :: "config \<Rightarrow> node \<Rightarrow> admitted \<Rightarrow> admitted" where
  "revoke cfg nd A = (\<lambda>d. if d \<in> node_dbs cfg nd then map_option (\<lambda>S. S - node_entries cfg nd) (A d) else A d)"

definition admitted_by :: "'w stored \<Rightarrow> 'w app \<Rightarrow> admitted" where
  "admitted_by C a = (\<lambda>d. map_option entries (C (world (app_client a)) d))"

section \<open>The environment\<close>

text \<open>Calls to Kubernetes do not touch the allow lists.\<close>

definition kube_frame :: "'w kube_env \<Rightarrow> 'w stored \<Rightarrow> ('w \<Rightarrow> nat) \<Rightarrow> bool" where
  "kube_frame kube C trouble \<longleftrightarrow>
     (\<forall>ns ev w r w'. create_event kube ns ev w = (r, w') \<longrightarrow> C w' = C w \<and> trouble w' \<le> trouble w) \<and>
     (\<forall>w. range_order_ok (ipv4_order kube w) \<and> range_order_ok (ipv6_order kube w))"

text \<open>
  The invariant of a client in a world whose failures are atomic and fewer than the attempts; every
  configured database exists.
\<close>

definition client_inv ::
  "'w linode_env \<Rightarrow> 'w kube_env \<Rightarrow> config \<Rightarrow> 'w stored \<Rightarrow> ('w \<Rightarrow> nat) \<Rightarrow> 'w client \<Rightarrow> bool" where
  "client_inv lin kube cfg C trouble c \<longleftrightarrow>
     env_ok lin C \<and> atomic_failures lin C \<and> transient lin C trouble \<and> kube_frame kube C trouble \<and>
     cache_ok C c \<and> int (trouble (world c)) < MaxAttempts (Retry cfg) \<and>
     (\<forall>np. \<forall>d \<in> pool_dbs cfg np. C (world c) d \<noteq> None)"

lemma client_inv_frame:
  "client_inv lin kube cfg C trouble c \<Longrightarrow> C w = C (world c) \<Longrightarrow> trouble w \<le> trouble (world c) \<Longrightarrow>
   allowListCache c' = allowListCache c \<Longrightarrow> world c' = w \<Longrightarrow> client_inv lin kube cfg C trouble c'"
  by (auto simp: client_inv_def cache_ok_def)

lemma client_inv_metrics [simp]:
  "client_inv lin kube cfg C trouble (with_metrics f c) = client_inv lin kube cfg C trouble c"
  "world (with_metrics f c) = world c"
  by (simp_all add: client_inv_def with_metrics_def cache_ok_def)

text \<open>One update, seen from its entries.\<close>

lemma UpdateAllowList_entries:
  assumes inv: "client_inv lin kube cfg C trouble c"
    and run: "UpdateAllowList lin cfg np node ip operation c = (r, c')"
  shows "client_inv lin kube cfg C trouble c'"
    and "map_option entries (C (world c') d) =
      (if d \<in> pool_dbs cfg np then map_option (edit (effective_op operation) ip) (map_option entries (C (world c) d))
       else map_option entries (C (world c) d))"
    and "pool_dbs cfg np \<noteq> {} \<Longrightarrow> r = None"
proof -
  have env: "env_ok lin C" and cache: "cache_ok C c" and tr: "transient lin C trouble"
    and few: "int (trouble (world c)) < MaxAttempts (Retry cfg)" and atomic: "atomic_failures lin C"
    and exist: "\<forall>d \<in> pool_dbs cfg np. C (world c) d \<noteq> None"
    using inv by (auto simp: client_inv_def)
  note spec = UpdateAllowList_spec [OF env pool_inv_start [OF cache] run]
  have out: "r = None \<and> trouble (world c') \<le> trouble (world c) \<or> pool_dbs cfg np = {} \<and> c' = c"
  proof (cases "getDatabasesForNodepool (Nodepools cfg) np = []")
    case True
    then show ?thesis using run by (simp add: UpdateAllowList_def pool_dbs_def)
  next
    case False
    then show ?thesis
      using UpdateAllowList_lives [OF env cache tr False exist few, of node ip operation] run by simp
  qed
  then show "pool_dbs cfg np \<noteq> {} \<Longrightarrow> r = None" by blast
  show ent: "map_option entries (C (world c') d) =
      (if d \<in> pool_dbs cfg np then map_option (edit (effective_op operation) ip) (map_option entries (C (world c) d))
       else map_option entries (C (world c) d))" for d
  proof (cases "d \<in> pool_dbs cfg np")
    case True
    then have "r = None" using out by auto
    then have "db_done C d ip (effective_op operation) (C (world c) d) c'"
      using spec(2) [OF _ _ True] few by auto
    then show ?thesis using True by (auto simp: db_done_def entries_new_list)
  next
    case False
    then show ?thesis using spec(1) by (simp add: pool_inv_def)
  qed
  have "trouble (world c') \<le> trouble (world c)" using out by auto
  moreover have "cache_ok C c'" using spec(1) atomic by (simp add: pool_inv_def)
  moreover have "C (world c') d \<noteq> None" if "C (world c) d \<noteq> None" for d
    using ent [of d] that by (auto split: if_splits)
  ultimately show "client_inv lin kube cfg C trouble c'"
    using inv unfolding client_inv_def by auto
qed

section \<open>The handler\<close>

lemma process_ip_entries:
  assumes inv: "client_inv lin kube cfg C trouble c"
    and run: "process_ip lin cfg np node operation ip c = (r, c')"
  shows "client_inv lin kube cfg C trouble c'"
    and "map_option entries (C (world c') d) =
      (if d \<in> pool_dbs cfg np then map_option (edit (effective_op operation) ip) (map_option entries (C (world c) d))
       else map_option entries (C (world c) d))"
    and "pool_dbs cfg np \<noteq> {} \<Longrightarrow> r = None"
proof -
  obtain q c1 where q: "UpdateAllowList lin cfg np node ip operation c = (q, c1)" by fastforce
  note upd = UpdateAllowList_entries [OF inv q]
  have c': "r = q" "world c' = world c1" "client_inv lin kube cfg C trouble c' = client_inv lin kube cfg C trouble c1"
    using run q by (auto simp: process_ip_def Let_def split: option.splits)
  show "client_inv lin kube cfg C trouble c'" using upd(1) c' by simp
  show "map_option entries (C (world c') d) =
      (if d \<in> pool_dbs cfg np then map_option (edit (effective_op operation) ip) (map_option entries (C (world c) d))
       else map_option entries (C (world c) d))" using upd(2) [of d] c' by simp
  show "pool_dbs cfg np \<noteq> {} \<Longrightarrow> r = None" using upd(3) c' by simp
qed

lemma process_ips_entries:
  assumes "client_inv lin kube cfg C trouble c"
    and "loop_last_err (process_ip lin cfg np node operation) ips err c = (r, c')"
  shows "client_inv lin kube cfg C trouble c' \<and>
    (\<forall>d. map_option entries (C (world c') d) =
      (if d \<in> pool_dbs cfg np
       then map_option (fold (edit (effective_op operation)) ips) (map_option entries (C (world c) d))
       else map_option entries (C (world c) d))) \<and>
    (pool_dbs cfg np \<noteq> {} \<longrightarrow> r = err)"
  using assms
proof (induction ips arbitrary: c err)
  case Nil
  then show ?case by (simp add: option.map_id0 id_def [symmetric])
next
  case (Cons ip ips)
  obtain q c1 where q: "process_ip lin cfg np node operation ip c = (q, c1)" by fastforce
  note upd = process_ip_entries [OF Cons.prems(1) q]
  have rest: "loop_last_err (process_ip lin cfg np node operation) ips (if q = None then err else q) c1 = (r, c')"
    using Cons.prems(2) q by (auto split: option.splits)
  from Cons.IH [OF upd(1) rest] show ?case
    using upd(2,3) by (auto simp: option.map_comp comp_def)
qed

lemma fold_edit_add: "fold (edit ''add'') ips S = S \<union> normalizeIP ` set ips"
  by (induction ips arbitrary: S) (auto simp: edit_def)

lemma fold_edit_remove: "fold (edit ''remove'') ips S = S - normalizeIP ` set ips"
  by (induction ips arbitrary: S) (auto simp: edit_def)

text \<open>The handler keeps the invariant and refines the operation on sets.\<close>

lemma handleNodeEvent_refines:
  assumes inv: "client_inv lin kube cfg C trouble (app_client a)"
    and run: "handleNodeEvent lin kube cfg nd eventType a = (r, a')"
  shows "client_inv lin kube cfg C trouble (app_client a')"
    and "admitted_by C a' = (if eventType = ''add'' then admit cfg nd else revoke cfg nd) (admitted_by C a)"
    and "node_dbs cfg nd \<noteq> {} \<Longrightarrow> r = None \<longleftrightarrow> external_ips cfg nd \<noteq> {}"
proof -
  let ?np = "getNodepoolLabelValue cfg (Some nd)"
  define c where "c = (if eventType = ''add'' then with_metrics (IncrementNodeAdds ?np) (app_client a)
    else with_metrics (IncrementNodeDeletes ?np) (app_client a))"
  have c: "client_inv lin kube cfg C trouble c" "world c = world (app_client a)"
    using inv by (simp_all add: c_def)
  have frame: "kube_frame kube C trouble" using inv by (simp add: client_inv_def)
  let ?ips = "GetExternalIPs cfg (ipv4_order kube (world c)) (ipv6_order kube (world c)) nd"
  have ips: "case ?ips of Inl err \<Rightarrow> external_ips cfg nd = {}
    | Inr ips \<Rightarrow> ips \<noteq> [] \<and> set ips = external_ips cfg nd \<and> distinct ips"
    using frame by (intro GetExternalIPs_spec) (simp_all add: kube_frame_def)
  have run': "(r, a') = (case ?ips of
           Inl err \<Rightarrow> (Some err, a\<lparr>app_client := with_metrics
                (IncrementNodeProcessingErrors ?np eventType ''ip_extraction_failure'') c\<rparr>)
         | Inr ips \<Rightarrow>
             (case loop_last_err (process_ip lin cfg ?np (node_Name nd) eventType) ips None c of
                (Some lastErr, c') \<Rightarrow>
                  (case LogEvent kube (node_Name nd) ''Warning'' ''AllowListUpdateFailed''
                      (''Failed to update database allow lists for some IPs: '' @ lastErr) (world c') of
                     (_, w) \<Rightarrow> (Some lastErr, a\<lparr>app_client := c'\<lparr>world := w\<rparr>\<rparr>))
              | (None, c') \<Rightarrow>
                  (case LogEvent kube (node_Name nd) ''Normal'' ''AllowListUpdated''
                      (if eventType = ''add''
                       then ''Added node IPs '' @ show_strings ips @ '' to database allow lists''
                       else ''Scheduled removal of node IPs '' @ show_strings ips @ '' from database allow lists'')
                      (world c') of
                     (_, w) \<Rightarrow> (None, updateNodeCountMetrics (Nodepools cfg) (a\<lparr>app_client := c'\<lparr>world := w\<rparr>\<rparr>)))))"
    using run by (simp only: handleNodeEvent_def GetNodepoolLabelValue_def Let_def c_def)
  have log: "C w' = C w \<and> trouble w' \<le> trouble w" if "LogEvent kube n t rs m w = (q, w')" for n t rs m w q w'
    using that frame unfolding LogEvent_def kube_frame_def
    by (auto simp: Let_def split: prod.splits option.splits)
  have *: "client_inv lin kube cfg C trouble (app_client a') \<and>
    admitted_by C a' = (if eventType = ''add'' then admit cfg nd else revoke cfg nd) (admitted_by C a) \<and>
    (node_dbs cfg nd \<noteq> {} \<longrightarrow> (r = None \<longleftrightarrow> external_ips cfg nd \<noteq> {}))"
  proof (cases ?ips)
    case (Inl err)
    then have "node_entries cfg nd = {}" using ips by (simp add: node_entries_def)
    then show ?thesis
      using Inl run' c ips by (auto simp: admitted_by_def admit_def revoke_def fun_eq_iff option.map_comp comp_def option.map_ident)
  next
    case (Inr xs)
    obtain q c' where loop: "loop_last_err (process_ip lin cfg ?np (node_Name nd) eventType) xs None c = (q, c')"
      by fastforce
    note upd = process_ips_entries [OF c(1) loop]
    obtain w where w: "app_client a' = c'\<lparr>world := w\<rparr>" "C w = C (world c')" "trouble w \<le> trouble (world c')" "r = q"
    proof (cases q)
      case None
      obtain l w where l: "LogEvent kube (node_Name nd) ''Normal'' ''AllowListUpdated''
          (if eventType = ''add''
           then ''Added node IPs '' @ show_strings xs @ '' to database allow lists''
           else ''Scheduled removal of node IPs '' @ show_strings xs @ '' from database allow lists'')
          (world c') = (l, w)" by fastforce
      have "r = None" "app_client a' = c'\<lparr>world := w\<rparr>"
        using run' [unfolded Inr sum.case loop prod.case] None l by (simp_all add: updateNodeCountMetrics_def)
      then show ?thesis using that log [OF l] None by blast
    next
      case (Some e)
      obtain l w where l: "LogEvent kube (node_Name nd) ''Warning'' ''AllowListUpdateFailed''
          (''Failed to update database allow lists for some IPs: '' @ e) (world c') = (l, w)" by fastforce
      have "r = Some e" "app_client a' = c'\<lparr>world := w\<rparr>"
        using run' [unfolded Inr sum.case loop prod.case] Some l by simp_all
      then show ?thesis using that log [OF l] Some by blast
    qed
    have inv': "client_inv lin kube cfg C trouble (app_client a')"
      by (rule client_inv_frame [of lin kube cfg C trouble c' w]) (use upd w in auto)
    have "admitted_by C a' d = (if eventType = ''add'' then admit cfg nd else revoke cfg nd) (admitted_by C a) d" for d
      using upd w ips c(2) Inr
      by (auto simp: admitted_by_def admit_def revoke_def node_dbs_def node_entries_def effective_op_def
          fold_edit_add fold_edit_remove option.map_comp comp_def)
    then show ?thesis using inv' upd w(4) ips Inr by (auto simp: node_dbs_def fun_eq_iff)
  qed
  then show "client_inv lin kube cfg C trouble (app_client a')"
    and "admitted_by C a' = (if eventType = ''add'' then admit cfg nd else revoke cfg nd) (admitted_by C a)"
    and "node_dbs cfg nd \<noteq> {} \<Longrightarrow> r = None \<longleftrightarrow> external_ips cfg nd \<noteq> {}" by blast+
qed

interpretation mirror: node_handlers cfg
  "add_handler lin kube cfg" "delete_handler lin kube cfg"
  "\<lambda>a. client_inv lin kube cfg C trouble (app_client a)" "admitted_by C" "admit cfg" "revoke cfg"
  for lin :: "'w linode_env" and kube :: "'w kube_env" and cfg and C :: "'w stored" and trouble
proof unfold_locales
  fix a :: "'w app" and nd
  assume inv: "client_inv lin kube cfg C trouble (app_client a)"
  obtain r a1 where add: "handleNodeEvent lin kube cfg nd ''add'' a = (r, a1)" by fastforce
  obtain q a2 where del: "handleNodeEvent lin kube cfg nd ''delete'' a = (q, a2)" by fastforce
  note adds = handleNodeEvent_refines [OF inv add] and dels = handleNodeEvent_refines [OF inv del]
  show "client_inv lin kube cfg C trouble (app_client (snd (add_handler lin kube cfg nd ''add'' a)))"
    and "admitted_by C (snd (add_handler lin kube cfg nd ''add'' a)) = admit cfg nd (admitted_by C a)"
    using adds by (simp_all add: add_handler_def add)
  show "client_inv lin kube cfg C trouble (app_client (snd (delete_handler lin kube cfg nd ''delete'' a)))"
    and "admitted_by C (snd (delete_handler lin kube cfg nd ''delete'' a)) = revoke cfg nd (admitted_by C a)"
    using dels by (simp_all add: delete_handler_def del)
qed

section \<open>Mirroring the nodes\<close>

text \<open>The entries the stored nodes contribute to a database.\<close>

definition contributed :: "config \<Rightarrow> (string \<rightharpoonup> node) \<Rightarrow> string \<Rightarrow> string set" where
  "contributed cfg st d =
     {x. \<exists>name nd. st name = Some nd \<and> isNodeInWatchedNodepool cfg nd \<and> d \<in> node_dbs cfg nd \<and> x \<in> node_entries cfg nd}"

definition mirrored :: "config \<Rightarrow> admitted \<Rightarrow> (string \<rightharpoonup> node) \<Rightarrow> admitted" where
  "mirrored cfg A0 st = (\<lambda>d. map_option (\<lambda>S. S \<union> contributed cfg st d) (A0 d))"

text \<open>
  \<open>owner\<close> tells for an entry the only node that may have it as an address: no two nodes share an address,
  and no address of a node was in a list before.
\<close>

definition node_of :: "informer_obj \<Rightarrow> node set" where
  "node_of obj = (case obj of NodeObj nd \<Rightarrow> {nd} | DeletedFinalStateUnknown _ _ \<Rightarrow> {})"

fun notified_nodes :: "notification \<Rightarrow> node set" where
  "notified_nodes (Added obj) = node_of obj"
| "notified_nodes (Updated oldObj newObj) = node_of oldObj \<union> node_of newObj"
| "notified_nodes (Deleted obj) = node_of obj"

fun addresses_kept :: "config \<Rightarrow> notification \<Rightarrow> bool" where
  "addresses_kept cfg (Updated (NodeObj old) (NodeObj new)) \<longleftrightarrow>
     getNodepoolLabelValue cfg (Some old) = getNodepoolLabelValue cfg (Some new) \<longrightarrow>
     external_ips cfg old = external_ips cfg new"
| "addresses_kept cfg ev \<longleftrightarrow> True"

definition owned :: "(string \<Rightarrow> string) \<Rightarrow> config \<Rightarrow> admitted \<Rightarrow> node \<Rightarrow> bool" where
  "owned owner cfg A0 nd \<longleftrightarrow>
     (\<forall>x \<in> node_entries cfg nd. owner x = node_Name nd) \<and>
     (\<forall>d S. A0 d = Some S \<longrightarrow> (\<forall>x \<in> S. owner x \<noteq> node_Name nd))"

definition store_owned :: "(string \<Rightarrow> string) \<Rightarrow> config \<Rightarrow> admitted \<Rightarrow> (string \<rightharpoonup> node) \<Rightarrow> bool" where
  "store_owned owner cfg A0 st \<longleftrightarrow>
     (\<forall>name nd. st name = Some nd \<longrightarrow> node_Name nd = name \<and> owned owner cfg A0 nd)"

lemma contributed_insert:
  assumes "st (node_Name nd) = None"
  shows "contributed cfg (st(node_Name nd \<mapsto> nd)) d =
    (if isNodeInWatchedNodepool cfg nd \<and> d \<in> node_dbs cfg nd then contributed cfg st d \<union> node_entries cfg nd
     else contributed cfg st d)"
proof -
  have "(st(node_Name nd \<mapsto> nd)) name = Some nd' \<longleftrightarrow> name = node_Name nd \<and> nd' = nd \<or> st name = Some nd'" for name nd'
    using assms by auto
  then show ?thesis unfolding contributed_def by auto
qed

lemma contributed_remove:
  assumes own: "store_owned owner cfg A0 st" and st: "st n = Some nd" and A0: "A0 d = Some S"
  shows "S \<union> contributed cfg (st(n := None)) d =
    (if isNodeInWatchedNodepool cfg nd \<and> d \<in> node_dbs cfg nd then S \<union> contributed cfg st d - node_entries cfg nd
     else S \<union> contributed cfg st d)"
proof -
  have n: "node_Name nd = n" and nd: "owned owner cfg A0 nd" using own st by (auto simp: store_owned_def)
  have S: "S \<inter> node_entries cfg nd = {}" using nd A0 by (fastforce simp: owned_def)
  have rest: "contributed cfg (st(n := None)) d \<inter> node_entries cfg nd = {}"
  proof -
    have "owner x \<noteq> n" if "x \<in> contributed cfg (st(n := None)) d" for x
      using that own by (auto simp: contributed_def store_owned_def owned_def split: if_splits)
    then show ?thesis using nd n by (auto simp: owned_def)
  qed
  have "contributed cfg st d =
    (if isNodeInWatchedNodepool cfg nd \<and> d \<in> node_dbs cfg nd
     then contributed cfg (st(n := None)) d \<union> node_entries cfg nd else contributed cfg (st(n := None)) d)"
    using contributed_insert [of "st(n := None)" nd cfg d] st n by (simp add: fun_upd_idem)
  then show ?thesis using S rest by auto
qed

lemma mirrored_add:
  assumes "st (node_Name nd) = None"
  shows "mirrored cfg A0 (st(node_Name nd \<mapsto> nd)) =
    (if isNodeInWatchedNodepool cfg nd then admit cfg nd (mirrored cfg A0 st) else mirrored cfg A0 st)"
  by (auto simp: mirrored_def admit_def contributed_insert [of st nd, OF assms] fun_eq_iff option.map_comp comp_def Un_assoc)

lemma mirrored_delete:
  assumes own: "store_owned owner cfg A0 st" and st: "st n = Some nd"
  shows "mirrored cfg A0 (st(n := None)) =
    (if isNodeInWatchedNodepool cfg nd then revoke cfg nd (mirrored cfg A0 st) else mirrored cfg A0 st)"
proof
  fix d
  show "mirrored cfg A0 (st(n := None)) d =
    (if isNodeInWatchedNodepool cfg nd then revoke cfg nd (mirrored cfg A0 st) else mirrored cfg A0 st) d"
  proof (cases "A0 d")
    case (Some S)
    then show ?thesis
      using contributed_remove [OF own st Some] by (auto simp: mirrored_def revoke_def)
  qed (simp add: mirrored_def revoke_def)
qed

lemma store_owned_upd:
  "store_owned owner cfg A0 st \<Longrightarrow> store_owned owner cfg A0 (st(n := None))"
  "store_owned owner cfg A0 st \<Longrightarrow> owned owner cfg A0 nd \<Longrightarrow> store_owned owner cfg A0 (st(node_Name nd \<mapsto> nd))"
  by (auto simp: store_owned_def)

lemma mirror_step:
  assumes own: "store_owned owner cfg A0 st" and ev: "deliver ev st = Some st'"
    and kept: "addresses_kept cfg ev" and new: "\<forall>nd \<in> notified_nodes ev. owned owner cfg A0 nd"
  shows "abs_notify cfg (admit cfg) (revoke cfg) ev (mirrored cfg A0 st) = mirrored cfg A0 st' \<and>
    store_owned owner cfg A0 st'"
  using assms
proof (cases "(ev, st)" rule: deliver.cases)
  case (1 nd st0)
  then have "st (node_Name nd) = None" "st' = st(node_Name nd \<mapsto> nd)" using ev by (auto split: if_splits)
  then show ?thesis using 1 own new by (simp add: mirrored_add store_owned_upd node_of_def)
next
  case (2 old new st0)
  then have st: "st (node_Name old) = Some old" "node_Name new = node_Name old"
    and st': "st' = (st(node_Name old := None))(node_Name new \<mapsto> new)"
    using ev by (auto split: if_splits)
  have own': "store_owned owner cfg A0 st'"
    unfolding st' using own assms(4) 2 by (intro store_owned_upd) (auto simp: node_of_def)
  note del = mirrored_delete [OF own st(1)]
  have add: "mirrored cfg A0 st' = (if isNodeInWatchedNodepool cfg new
      then admit cfg new (mirrored cfg A0 (st(node_Name old := None)))
      else mirrored cfg A0 (st(node_Name old := None)))"
    unfolding st' by (rule mirrored_add) (simp add: st(2))
  have same: "mirrored cfg A0 st' = mirrored cfg A0 st"
    if "getNodepoolLabelValue cfg (Some old) = getNodepoolLabelValue cfg (Some new)"
  proof -
    have eqs: "isNodeInWatchedNodepool cfg new = isNodeInWatchedNodepool cfg old"
      "node_dbs cfg new = node_dbs cfg old" "node_entries cfg new = node_entries cfg old"
      using that kept 2 by (simp_all add: isNodeInWatchedNodepool_def node_dbs_def node_entries_def)
    have "contributed cfg st' d = contributed cfg st d" for d
    proof -
      have "st = (st(node_Name old := None))(node_Name old \<mapsto> old)" using st(1) by (simp add: fun_upd_idem)
      then show ?thesis
        using contributed_insert [of "st(node_Name old := None)" old cfg d]
          contributed_insert [of "st(node_Name old := None)" new cfg d] st(2) eqs st' by simp
    qed
    then show ?thesis by (simp add: mirrored_def)
  qed
  show ?thesis
    using 2 own' del add same
    by (auto simp: update_node_def Let_def pure_handler_def isNodeInWatchedNodepool_def)
next
  case (3 nd st0)
  then have "st (node_Name nd) = Some nd" "st' = st(node_Name nd := None)" using ev by (auto split: if_splits)
  then show ?thesis using 3 own mirrored_delete [OF own] by (simp add: store_owned_upd)
qed auto

lemma mirror_run:
  assumes "store_owned owner cfg A0 st" and "deliver_all evs st = Some st'"
    and "\<forall>ev \<in> set evs. addresses_kept cfg ev \<and> (\<forall>nd \<in> notified_nodes ev. owned owner cfg A0 nd)"
  shows "fold (abs_notify cfg (admit cfg) (revoke cfg)) evs (mirrored cfg A0 st) = mirrored cfg A0 st'"
  using assms
proof (induction evs arbitrary: st)
  case (Cons ev evs)
  obtain st1 where st1: "deliver ev st = Some st1" "deliver_all evs st1 = Some st'"
    using Cons.prems(2) by (auto split: option.splits)
  have "abs_notify cfg (admit cfg) (revoke cfg) ev (mirrored cfg A0 st) = mirrored cfg A0 st1 \<and>
      store_owned owner cfg A0 st1"
    by (rule mirror_step [OF Cons.prems(1) st1(1)]) (use Cons.prems(3) in auto)
  then show ?case using Cons.IH [OF _ st1(2)] Cons.prems(3) by simp
qed simp

lemma mirror_run_start:
  assumes "deliver_all evs Map.empty = Some st"
    and "\<forall>ev \<in> set evs. addresses_kept cfg ev \<and> (\<forall>nd \<in> notified_nodes ev. owned owner cfg A0 nd)"
  shows "fold (abs_notify cfg (admit cfg) (revoke cfg)) evs A0 = mirrored cfg A0 st"
proof -
  have "mirrored cfg A0 Map.empty = A0" by (simp add: mirrored_def contributed_def option.map_ident)
  then show ?thesis using mirror_run [OF _ assms] by (simp add: store_owned_def)
qed

text \<open>An entry that is no address of the notified nodes is neither admitted nor revoked.\<close>

definition has_entry :: "string \<Rightarrow> admitted \<Rightarrow> string \<Rightarrow> bool" where
  "has_entry x A d \<longleftrightarrow> (\<exists>S. A d = Some S \<and> x \<in> S)"

lemma has_entry_ops:
  "x \<notin> node_entries cfg nd \<Longrightarrow> has_entry x (admit cfg nd A) d = has_entry x A d"
  "x \<notin> node_entries cfg nd \<Longrightarrow> has_entry x (revoke cfg nd A) d = has_entry x A d"
  by (auto simp: has_entry_def admit_def revoke_def)

lemma abs_notify_unmentioned:
  "\<forall>nd \<in> notified_nodes ev. x \<notin> node_entries cfg nd \<Longrightarrow>
   has_entry x (abs_notify cfg (admit cfg) (revoke cfg) ev A) d = has_entry x A d"
  by (cases "(cfg, admit cfg, revoke cfg, ev, A)" rule: abs_notify.cases)
    (auto simp: has_entry_ops node_of_def update_node_def Let_def pure_handler_def)

end
