(* ===== verification/LinodeService.thy ===== *)
theory LinodeService
  imports AllowListProps
begin

text \<open>
  \<^verbatim>\<open>NewClient\<close> of \<^verbatim>\<open>pkg/linode/client.go\<close>: the client over the adapter of \<^verbatim>\<open>linodego\<close>, which names
  databases by numbers. The contract of \<open>AllowListSpec\<close> speaks of IDs that are different databases; two
  decimal texts of one number are not. So the contract is carried over to the numbers for
  configurations whose IDs are written canonically.
\<close>

text \<open>The client \<^verbatim>\<open>NewClient\<close> makes: its API is the adapter over the service.\<close>

definition service_env :: "'w mysql_service \<Rightarrow> 'w linode_env \<Rightarrow> 'w linode_env" where
  "service_env svc env =
     env\<lparr>api_get := adapter_GetDatabaseAllowList svc, api_update := adapter_UpdateDatabaseAllowList svc\<rparr>"

definition NewLinodeClient ::
  "'w mysql_service \<Rightarrow> 'w linode_env \<Rightarrow> metrics \<Rightarrow> 'w \<Rightarrow> 'w linode_env \<times> 'w client" where
  "NewLinodeClient svc env m w =
     (let apiAdapter = service_env svc env
      in (apiAdapter, \<lparr>allowListCache = Map.empty, client_metrics = m, world = w\<rparr>))"

section \<open>Canonical IDs\<close>

definition canonical :: "string \<Rightarrow> bool" where
  "canonical db \<longleftrightarrow> (case atoi db of Inl _ \<Rightarrow> False | Inr n \<Rightarrow> decimal n = db)"

lemma canonical_decimal: "int64_range n \<Longrightarrow> canonical (decimal n)"
  by (simp add: canonical_def atoi_decimal)

lemma canonicalE:
  assumes "canonical db"
  obtains n where "atoi db = Inr n" and "db = decimal n"
  using assms by (auto simp: canonical_def split: sum.splits)

text \<open>The stored lists by ID, where the ID is canonical.\<close>

definition by_id :: "('w \<Rightarrow> int \<rightharpoonup> string list) \<Rightarrow> 'w stored" where
  "by_id S w db = (if canonical db then S w (projr (atoi db)) else None)"

lemma by_id_decimal: "int64_range n \<Longrightarrow> by_id S w (decimal n) = S w n"
  by (simp add: by_id_def canonical_decimal atoi_decimal)

lemma by_id_upd:
  assumes "canonical db" and "atoi db = Inr n" and "S w' = (S w)(n \<mapsto> xs)"
  shows "by_id S w' = (by_id S w)(db \<mapsto> xs)"
proof
  fix d
  have "d = db" if "canonical d" "atoi d = Inr n"
    using that assms(1,2) by (auto simp: canonical_def)
  then show "by_id S w' d = ((by_id S w)(db \<mapsto> xs)) d"
    using assms by (auto simp: by_id_def canonical_def split: sum.splits)
qed

text \<open>The adapter, restricted to canonical IDs: what a client with a canonical configuration sees.\<close>

definition canonical_env :: "'w mysql_service \<Rightarrow> 'w linode_env \<Rightarrow> 'w linode_env" where
  "canonical_env svc env =
     (service_env svc env)
       \<lparr>api_get := \<lambda>db w. if canonical db then adapter_GetDatabaseAllowList svc db w else (Inl [], w),
        api_update := \<lambda>db xs w. if canonical db then adapter_UpdateDatabaseAllowList svc db xs w else (Some [], w)\<rparr>"

text \<open>What the runtime promises of the stored lists: it does not touch them.\<close>

definition runtime_frame :: "'w linode_env \<Rightarrow> ('w \<Rightarrow> int \<rightharpoonup> string list) \<Rightarrow> bool" where
  "runtime_frame env S \<longleftrightarrow>
     (\<forall>w r w'. limiter_wait env w = (r, w') \<longrightarrow> S w' = S w) \<and>
     (\<forall>w r w'. clock_now env w = (r, w') \<longrightarrow> S w' = S w) \<and>
     (\<forall>w r w'. rand_float (runtime env) w = (r, w') \<longrightarrow> S w' = S w) \<and>
     (\<forall>d w r w'. wait_backoff (runtime env) d w = (r, w') \<longrightarrow> S w' = S w)"

lemma by_id_cong: "S w' = S w \<Longrightarrow> by_id S w' = by_id S w"
  by (simp add: by_id_def fun_eq_iff)

lemma service_env_sel [simp]:
  "limiter_wait (service_env svc env) = limiter_wait env" "clock_now (service_env svc env) = clock_now env"
  "runtime (service_env svc env) = runtime env" "ip_order (service_env svc env) = ip_order env"
  "limiter_wait (canonical_env svc env) = limiter_wait env" "clock_now (canonical_env svc env) = clock_now env"
  "runtime (canonical_env svc env) = runtime env" "ip_order (canonical_env svc env) = ip_order env"
  by (simp_all add: service_env_def canonical_env_def)

lemma canonical_env_ok:
  assumes svc: "service_laws svc S" and frame: "runtime_frame env S" and ord: "range_order_ok (ip_order env)"
  shows "env_ok (canonical_env svc env) (by_id S)"
proof -
  have get: "by_id S w' = by_id S w \<and> (\<forall>xs. r = Inr xs \<longrightarrow> by_id S w db = Some xs)"
    if "api_get (canonical_env svc env) db w = (r, w')" for db w r w'
  proof (cases "canonical db")
    case True
    then obtain n where n: "atoi db = Inr n" by (rule canonicalE)
    obtain g w1 where g: "GetMySQLDatabase svc n w = (g, w1)" by fastforce
    then have "S w1 = S w" "\<forall>xs. g = Inr xs \<longrightarrow> S w n = Some xs" using svc unfolding service_laws_def by metis+
    then show ?thesis using that True n g by_id_cong [of S w1 w]
      by (auto simp: canonical_env_def adapter_GetDatabaseAllowList_def by_id_def split: sum.splits)
  next
    case False
    then show ?thesis using that by (auto simp: canonical_env_def)
  qed
  have upd: "by_id S w' = (by_id S w)(db \<mapsto> xs) \<or> r \<noteq> None \<and> by_id S w' = by_id S w"
    if "api_update (canonical_env svc env) db xs w = (r, w')" for db xs w r w'
  proof (cases "canonical db")
    case True
    then obtain n where n: "atoi db = Inr n" by (rule canonicalE)
    obtain u w1 where u: "UpdateMySQLDatabase svc n xs w = (u, w1)" by fastforce
    have "r = None \<longleftrightarrow> u = None" and w': "w' = w1"
      using that True n u by (auto simp: canonical_env_def adapter_UpdateDatabaseAllowList_def split: option.splits)
    moreover have "S w1 = (S w)(n \<mapsto> xs) \<or> u \<noteq> None \<and> S w1 = S w"
      using svc u unfolding service_laws_def by metis
    ultimately show ?thesis using by_id_upd [OF True n, of S w1 w xs] by_id_cong [of S w1 w] by blast
  next
    case False
    then show ?thesis using that by (auto simp: canonical_env_def)
  qed
  have quiet: "limiter_wait env w = (l, w') \<Longrightarrow> by_id S w' = by_id S w" "clock_now env w = (t, w') \<Longrightarrow> by_id S w' = by_id S w"
    "rand_float (runtime env) w = (x, w') \<Longrightarrow> by_id S w' = by_id S w"
    "wait_backoff (runtime env) d w = (l, w') \<Longrightarrow> by_id S w' = by_id S w" for l t x d w w'
    using frame unfolding runtime_frame_def by (auto intro!: by_id_cong)
  show ?thesis
    unfolding env_ok_def api_laws_def service_env_sel
  proof (intro conjI allI impI)
    show "\<And>db w r w'. api_get (canonical_env svc env) db w = (r, w') \<Longrightarrow> by_id S w' = by_id S w"
      using get by blast
    show "\<And>db w r w' xs. api_get (canonical_env svc env) db w = (r, w') \<Longrightarrow> r = Inr xs \<Longrightarrow> by_id S w db = Some xs"
      using get by blast
    show "\<And>db xs w r w'. api_update (canonical_env svc env) db xs w = (r, w') \<Longrightarrow>
        by_id S w' = (by_id S w)(db \<mapsto> xs) \<or> r \<noteq> None \<and> by_id S w' = by_id S w"
      by (rule upd)
  qed (use quiet ord in blast)+
qed

section \<open>Agreement\<close>

lemma canonical_env_agrees:
  assumes "canonical db"
  shows "api_get (canonical_env svc env) db = api_get (service_env svc env) db"
    and "api_update (canonical_env svc env) db = api_update (service_env svc env) db"
  using assms by (simp_all add: canonical_env_def service_env_def fun_eq_iff)

lemma fetch_canonical:
  assumes "canonical db"
  shows "fetchAndCacheAllowList (service_env svc env) db nm = fetchAndCacheAllowList (canonical_env svc env) db nm"
  unfolding fetchAndCacheAllowList_def canonical_env_agrees [OF assms] service_env_sel ..

lemma updateDatabaseAllowList_canonical:
  assumes "canonical db"
  shows "updateDatabaseAllowList (service_env svc env) cfg db nm node ip operation =
    updateDatabaseAllowList (canonical_env svc env) cfg db nm node ip operation"
proof -
  have get: "getCachedAllowList (service_env svc env) db nm = getCachedAllowList (canonical_env svc env) db nm"
    unfolding getCachedAllowList_def fetch_canonical [OF assms] ..
  have "update_attempt (service_env svc env) db nm ip operation = update_attempt (canonical_env svc env) db nm ip operation"
    unfolding update_attempt_def get canonical_env_agrees [OF assms] service_env_sel ..
  then show ?thesis by (intro ext) (simp only: updateDatabaseAllowList_def service_env_sel)
qed

lemma UpdateAllowList_canonical:
  assumes "\<forall>d \<in> pool_dbs cfg np. canonical d"
  shows "UpdateAllowList (service_env svc env) cfg np node ip operation c =
    UpdateAllowList (canonical_env svc env) cfg np node ip operation c"
proof -
  let ?dbs = "getDatabasesForNodepool (Nodepools cfg) np"
  have "loop_last_err (\<lambda>db. updateDatabaseAllowList (service_env svc env) cfg (db_ID db) (db_Name db) node ip op) ?dbs None s =
      loop_last_err (\<lambda>db. updateDatabaseAllowList (canonical_env svc env) cfg (db_ID db) (db_Name db) node ip op) ?dbs None s" for op s
    by (rule loop_last_err_cong [where I = "\<lambda>_. True"])
      (use assms in \<open>auto simp: pool_dbs_def updateDatabaseAllowList_canonical\<close>)
  then show ?thesis
    by (simp add: UpdateAllowList_def handleAddOperation_def handleDeleteOperation_def Let_def)
qed

section \<open>Properties\<close>

definition demo_numbers :: "(int \<rightharpoonup> string list) linode_env" where
  "demo_numbers =
     \<lparr>api_get = (\<lambda>_ w. (Inl [], w)), api_update = (\<lambda>_ _ w. (None, w)), limiter_wait = (\<lambda>w. (None, w)),
      clock_now = (\<lambda>w. (0, w)), runtime = demo_runtime, ip_order = sorted_list_of_set, db_order = sorted_list_of_set\<rparr>"

lemma demo_numbers_frame: "runtime_frame demo_numbers (\<lambda>w. w)" "range_order_ok (ip_order demo_numbers)"
  by (simp_all add: runtime_frame_def demo_numbers_def demo_runtime_def range_order_sorted_list_of_set)



end
