(* ===== verification/EntrySafety.thy ===== *)
theory EntrySafety
  imports NodeMirror LinodeService
begin

text \<open>
  What no failure can break: an entry that is no address of a notified node is in a list exactly as
  long as it was there before, whatever fails and however often, writes that are applied but reported
  failed included. The invariant covers the cache, which may be behind the service by then: stored and
  cached lists agree on that entry.
\<close>

text \<open>\<open>H\<close>: for the existing databases, whether \<open>x\<close> is in the list.\<close>

definition entry_kept :: "'w stored \<Rightarrow> string \<Rightarrow> (string \<rightharpoonup> bool) \<Rightarrow> 'w client \<Rightarrow> bool" where
  "entry_kept C x H c \<longleftrightarrow>
     (\<forall>d. map_option (\<lambda>ys. x \<in> entries ys) (C (world c) d) = H d) \<and>
     (\<forall>d e. allowListCache c d = Some e \<longrightarrow> H d = Some (x \<in> entries (AllowList e)))"

lemma entry_kept_frame:
  "entry_kept C x H c \<Longrightarrow> C (world c') = C (world c) \<Longrightarrow> allowListCache c' = allowListCache c \<Longrightarrow> entry_kept C x H c'"
  by (simp add: entry_kept_def)

lemma entry_kept_stored: "entry_kept C x H c \<Longrightarrow> C (world c) d = Some ys \<Longrightarrow> H d = Some (x \<in> entries ys)"
  unfolding entry_kept_def by (metis option.simps(9))

lemma getCached_kept:
  assumes laws: "api_laws env C" and kept: "entry_kept C x H c" and get: "getCachedAllowList env db nm c = (r, c1)"
  shows "entry_kept C x H c1" and "r = Inr ys \<Longrightarrow> H db = Some (x \<in> entries ys)"
proof -
  note spec = getCached_spec [OF laws get]
  have cached: "H d = Some (x \<in> entries (AllowList e))" if "allowListCache c1 d = Some e" for d e
  proof (cases "d = db")
    case True
    then show ?thesis using spec(6) that kept entry_kept_stored [OF kept, of db "AllowList e"]
      by (auto simp: entry_kept_def)
  next
    case False
    then show ?thesis using spec(3) that kept by (simp add: entry_kept_def)
  qed
  then show "entry_kept C x H c1" using spec(1) kept by (simp add: entry_kept_def)
  show "H db = Some (x \<in> entries ys)" if "r = Inr ys"
    using spec(4) [OF that] cached by auto
qed

lemma update_attempt_kept:
  assumes env: "env_ok env C" and kept: "entry_kept C x H c" and x: "normalizeIP ip \<noteq> x"
  shows "entry_kept C x H (snd (update_attempt env db nm ip operation c))"
proof -
  have laws: "api_laws env C" and ord: "range_order_ok (ip_order env)" using env by (simp_all add: env_ok_def)
  obtain g c1 where get: "getCachedAllowList env db nm c = (g, c1)" by fastforce
  note kept1 = getCached_kept(1) [OF laws kept get]
  show ?thesis
  proof (cases g)
    case (Inl err)
    then show ?thesis using kept1 by (simp add: update_attempt_alt [OF ord] get)
  next
    case (Inr ys)
    obtain u w2 where u: "api_update env db (new_list operation ip ys) (world c1) = (u, w2)" by fastforce
    have H: "H db = Some (x \<in> entries ys)" using getCached_kept(2) [OF laws kept get] Inr by simp
    have same: "x \<in> entries (new_list operation ip ys) \<longleftrightarrow> x \<in> entries ys"
      using x by (auto simp: entries_new_list edit_def)
    have "C w2 = (C (world c1))(db \<mapsto> new_list operation ip ys) \<or> C w2 = C (world c1)"
      using laws u unfolding api_laws_def by metis
    then have stored: "map_option (\<lambda>ys. x \<in> entries ys) (C w2 d) = H d" for d
      using kept1 H same by (auto simp: entry_kept_def)
    then show ?thesis
      using kept1 Inr u by (auto simp: update_attempt_alt [OF ord] get entry_kept_def invalidateCache_def
          split: option.splits)
  qed
qed

interpretation keep: retryable
  "update_attempt env db nm ip operation" "lift_runtime (runtime env)"
  "\<lambda>c. env_ok env C \<and> normalizeIP ip \<noteq> x \<and> entry_kept C x H c" "\<lambda>c. True"
  for env :: "'w linode_env" and db nm ip operation and C :: "'w stored" and x H
proof unfold_locales
  fix c :: "'w client" and d
  assume inv: "env_ok env C \<and> normalizeIP ip \<noteq> x \<and> entry_kept C x H c"
  then have laws: "api_laws env C" and kept: "entry_kept C x H c" by (auto simp: env_ok_def)
  show "env_ok env C \<and> normalizeIP ip \<noteq> x \<and> entry_kept C x H (snd (update_attempt env db nm ip operation c))"
    using inv update_attempt_kept by blast
  show "env_ok env C \<and> normalizeIP ip \<noteq> x \<and> entry_kept C x H (snd (rand_float (lift_runtime (runtime env)) c))"
    using inv entry_kept_frame [OF kept] api_laws_frame(4) [OF laws] by (auto simp: lift_runtime_def split: prod.splits)
  show "env_ok env C \<and> normalizeIP ip \<noteq> x \<and> entry_kept C x H (snd (wait_backoff (lift_runtime (runtime env)) d c))"
    using inv entry_kept_frame [OF kept] api_laws_frame(5) [OF laws] by (auto simp: lift_runtime_def split: prod.splits)
qed simp

lemma updateDatabaseAllowList_kept:
  assumes env: "env_ok env C" and kept: "entry_kept C x H c" and x: "normalizeIP ip \<noteq> x"
  shows "entry_kept C x H (snd (updateDatabaseAllowList env cfg db nm node ip operation c))"
proof -
  have laws: "api_laws env C" using env by (simp add: env_ok_def)
  note frame = api_laws_frame(2,3) [OF laws]
  obtain t0 w0 where t0: "clock_now env (world c) = (t0, w0)" by fastforce
  obtain l w1 where l: "limiter_wait env w0 = (l, w1)" by fastforce
  have kept1: "entry_kept C x H (c\<lparr>world := w1\<rparr>)"
    using frame(1) [OF l] frame(2) [OF t0] by (intro entry_kept_frame [OF kept]) simp_all
  obtain q c1 where q: "RetryWithBackoff (lift_runtime (runtime env)) (Retry cfg)
      (update_attempt env db nm ip operation) (Some DefaultIsRetryable) (c\<lparr>world := w1\<rparr>) = (q, c1)" by fastforce
  have "entry_kept C x H c1"
    using keep.RetryWithBackoff_inv [of env C ip x H "c\<lparr>world := w1\<rparr>", OF _ q] env x kept1 by simp
  then have kept2: "entry_kept C x H (if l = None then c1 else c\<lparr>world := w1\<rparr>)" using kept1 by simp
  obtain t1 w2 where t1: "clock_now env (world (if l = None then c1 else c\<lparr>world := w1\<rparr>)) = (t1, w2)" by fastforce
  show ?thesis
    using t0 l q t1 frame(2) [OF t1]
    by (intro entry_kept_frame [OF kept2]) (auto simp: updateDatabaseAllowList_def split: option.splits)
qed

lemma UpdateAllowList_kept:
  assumes env: "env_ok env C" and kept: "entry_kept C x H c" and x: "normalizeIP ip \<noteq> x"
  shows "entry_kept C x H (snd (UpdateAllowList env cfg np node ip operation c))"
proof -
  have loop: "entry_kept C x H (snd (loop_last_err
      (\<lambda>db. updateDatabaseAllowList env cfg (db_ID db) (db_Name db) node ip op) dbs None s))"
    if "entry_kept C x H s" for op dbs s
    by (rule loop_last_err_inv [where P = "entry_kept C x H"])
      (use that updateDatabaseAllowList_kept [OF env _ x] in auto)
  then show ?thesis
    using kept by (auto simp: UpdateAllowList_def handleAddOperation_def handleDeleteOperation_def Let_def
        intro!: loop entry_kept_frame [OF kept])
qed

section \<open>The handlers\<close>

text \<open>Calls to Kubernetes do not touch the allow lists; its maps are visited in some order.\<close>

definition kube_quiet :: "'w kube_env \<Rightarrow> ('w \<Rightarrow> 'c) \<Rightarrow> bool" where
  "kube_quiet kube C \<longleftrightarrow>
     (\<forall>ns ev w r w'. create_event kube ns ev w = (r, w') \<longrightarrow> C w' = C w) \<and>
     (\<forall>sel w r w'. list_nodes_labelled kube sel w = (r, w') \<longrightarrow> C w' = C w) \<and>
     (\<forall>w. range_order_ok (ipv4_order kube w) \<and> range_order_ok (ipv6_order kube w))"

lemma LogEvent_quiet:
  assumes "kube_quiet kube C" and "LogEvent kube n t rs m w = (q, w')"
  shows "C w' = C w"
  using assms unfolding LogEvent_def kube_quiet_def by (auto simp: Let_def split: prod.splits option.splits)

lemma entry_kept_metrics [simp]: "entry_kept C x H (with_metrics f c) = entry_kept C x H c"
  by (simp add: entry_kept_def with_metrics_def)

lemma process_ip_kept:
  assumes "env_ok lin C" and "entry_kept C x H c" and "normalizeIP ip \<noteq> x"
  shows "entry_kept C x H (snd (process_ip lin cfg np node operation ip c))"
proof -
  obtain q c1 where q: "UpdateAllowList lin cfg np node ip operation c = (q, c1)" by fastforce
  have "entry_kept C x H c1" using UpdateAllowList_kept [OF assms, of cfg np node operation] by (simp add: q)
  then show ?thesis by (auto simp: process_ip_def q Let_def split: option.splits)
qed

lemma handleNodeEvent_kept:
  assumes env: "env_ok lin C" and quiet: "kube_quiet kube C" and kept: "entry_kept C x H (app_client a)"
    and x: "x \<notin> node_entries cfg nd"
  shows "entry_kept C x H (app_client (snd (handleNodeEvent lin kube cfg nd eventType a)))"
proof -
  let ?np = "getNodepoolLabelValue cfg (Some nd)"
  define c where "c = (if eventType = ''add'' then with_metrics (IncrementNodeAdds ?np) (app_client a)
    else with_metrics (IncrementNodeDeletes ?np) (app_client a))"
  have c: "entry_kept C x H c" using kept by (simp add: c_def)
  let ?ips = "GetExternalIPs cfg (ipv4_order kube (world c)) (ipv6_order kube (world c)) nd"
  have ips: "case ?ips of Inl err \<Rightarrow> external_ips cfg nd = {}
    | Inr ips \<Rightarrow> ips \<noteq> [] \<and> set ips = external_ips cfg nd \<and> distinct ips"
    using quiet by (intro GetExternalIPs_spec) (simp_all add: kube_quiet_def)
  show ?thesis
  proof (cases ?ips)
    case (Inl err)
    then show ?thesis using c by (simp add: handleNodeEvent_def GetNodepoolLabelValue_def Let_def c_def [symmetric])
  next
    case (Inr xs)
    obtain q c' where loop: "loop_last_err (process_ip lin cfg ?np (node_Name nd) eventType) xs None c = (q, c')"
      by fastforce
    have "entry_kept C x H (snd (loop_last_err (process_ip lin cfg ?np (node_Name nd) eventType) xs None c))"
    proof (rule loop_last_err_inv [where P = "entry_kept C x H", OF c])
      fix ip s assume "ip \<in> set xs" "entry_kept C x H s"
      then show "entry_kept C x H (snd (process_ip lin cfg ?np (node_Name nd) eventType ip s))"
        using ips Inr x by (intro process_ip_kept [OF env]) (auto simp: node_entries_def)
    qed
    then have c': "entry_kept C x H c'" by (simp add: loop)
    have "\<exists>w. app_client (snd (handleNodeEvent lin kube cfg nd eventType a)) = c'\<lparr>world := w\<rparr> \<and> C w = C (world c')"
      using Inr loop LogEvent_quiet [OF quiet]
      by (auto simp: handleNodeEvent_def GetNodepoolLabelValue_def Let_def c_def [symmetric] updateNodeCountMetrics_def
          split: option.splits prod.splits)
    then show ?thesis using entry_kept_frame [OF c'] by force
  qed
qed

lemma update_node_kept:
  assumes "env_ok lin C" and "kube_quiet kube C" and "entry_kept C x H (app_client a)"
    and "x \<notin> node_entries cfg old" and "x \<notin> node_entries cfg new"
  shows "entry_kept C x H (app_client (update_node cfg (add_handler lin kube cfg) (delete_handler lin kube cfg) old new a))"
  using assms by (auto simp: update_node_def Let_def add_handler_def delete_handler_def intro!: handleNodeEvent_kept)

lemma notify_kept:
  assumes "env_ok lin C" and "kube_quiet kube C" and "entry_kept C x H (app_client a)"
    and "\<forall>nd \<in> notified_nodes ev. x \<notin> node_entries cfg nd"
    and "notify cfg (add_handler lin kube cfg) (delete_handler lin kube cfg) ev a = Returns a'"
  shows "entry_kept C x H (app_client a')"
proof (cases ev)
  case (Added obj)
  then show ?thesis using assms
    by (cases obj) (auto simp: AddFunc_def add_handler_def node_of_def handleNodeEvent_kept split: if_splits)
next
  case (Updated oldObj newObj)
  then show ?thesis using assms
    by (cases oldObj; cases newObj) (auto simp: UpdateFunc_def node_of_def update_node_kept)
next
  case (Deleted obj)
  then show ?thesis using assms
    by (cases obj) (auto simp: DeleteFunc_def delete_handler_def node_of_def handleNodeEvent_kept split: if_splits)
qed

lemma run_spawned_kept:
  assumes quiet: "kube_quiet kube C" and "entry_kept C x H (app_client a)"
  shows "entry_kept C x H (app_client (run_spawned kube cfg i a))"
proof -
  have "C w' = C w" if "GetNodesByNodepool kube cfg np w = (r, w')" for np w r w'
    using that quiet unfolding GetNodesByNodepool_def kube_quiet_def by (auto split: prod.splits sum.splits)
  then show ?thesis using assms(2)
    by (auto simp: run_spawned_def node_count_goroutine_def intro!: entry_kept_frame [OF assms(2)] split: prod.splits sum.splits)
qed

lemma entry_kept_start:
  "cache_ok C c \<Longrightarrow> entry_kept C x (\<lambda>d. map_option (\<lambda>ys. x \<in> entries ys) (C (world c) d)) c"
  by (auto simp: entry_kept_def cache_ok_def)

section \<open>The handlers over the adapter\<close>

lemma pool_dbs_configured: "d \<in> pool_dbs cfg np \<Longrightarrow> d \<in> configured_ids cfg"
proof -
  have "db_ID ` set (getDatabasesForNodepool nps np) \<subseteq> (\<Union>np \<in> set nps. db_ID ` set (np_Databases np))" for nps
    by (induction nps) auto
  then show "d \<in> pool_dbs cfg np \<Longrightarrow> d \<in> configured_ids cfg"
    unfolding pool_dbs_def configured_ids_def by blast
qed


lemma handlers_canonical:
  assumes "\<forall>d \<in> configured_ids cfg. canonical d"
  shows "handleNodeEvent (service_env svc env) kube cfg = handleNodeEvent (canonical_env svc env) kube cfg"
proof -
  have "UpdateAllowList (service_env svc env) cfg = UpdateAllowList (canonical_env svc env) cfg"
    using assms pool_dbs_configured by (intro ext UpdateAllowList_canonical) blast
  then have "process_ip (service_env svc env) cfg = process_ip (canonical_env svc env) cfg"
    by (intro ext) (simp add: process_ip_def)
  then show ?thesis by (intro ext) (simp only: handleNodeEvent_def)
qed

lemma InitializeCache_canonical:
  assumes "\<forall>d \<in> configured_ids cfg. canonical d" and "range_order_ok (db_order env)"
  shows "InitializeCache (service_env svc env) cfg c = InitializeCache (canonical_env svc env) cfg c"
proof -
  have ord: "db_order (service_env svc env) = db_order env" "db_order (canonical_env svc env) = db_order env"
    by (simp_all add: service_env_def canonical_env_def)
  have ids: "set (db_order env (configured_ids cfg)) = configured_ids cfg"
    using assms(2) by (simp add: configured_ids_def)
  have "fetchAndCacheAllowList (service_env svc env) db nm = fetchAndCacheAllowList (canonical_env svc env) db nm"
    if "db \<in> configured_ids cfg" for db nm
    using assms(1) that by (intro fetch_canonical) blast
  then show ?thesis
    unfolding InitializeCache_def Let_def set_map configured_dbs_keys ord
    by (intro loop_last_err_cong [where I = "\<lambda>_. True"]) (auto simp: ids)
qed

end
