(* ===== verification/NodeMirrorProps.thy ===== *)
theory NodeMirrorProps
  imports NodeMirror
begin

text \<open>The properties of the program from the informer to the allow lists, and of its start-up.\<close>

section \<open>A concrete fleet\<close>

definition calm_env :: "demo_world linode_env" where
  "calm_env = demo_env\<lparr>api_update := \<lambda>db xs w. (None, w\<lparr>dw_stored := (dw_stored w)(db \<mapsto> xs)\<rparr>)\<rparr>"

definition demo_kube :: "node list \<Rightarrow> demo_world kube_env" where
  "demo_kube nodes =
     \<lparr>list_nodes = (\<lambda>w. (Inr nodes, w)),
      list_nodes_labelled = (\<lambda>(k, v) w. (Inr (filter (has_label k v) nodes), w)),
      create_event = (\<lambda>ns ev w. (Some ''forbidden'', w)), os_hostname = Inr ''host'',
      ipv4_order = (\<lambda>_. sorted_list_of_set), ipv6_order = (\<lambda>_. sorted_list_of_set),
      pool_order = (\<lambda>_. sorted_list_of_set)\<rparr>"

definition demo_fleet :: config where
  "demo_fleet = DefaultConfig\<lparr>Nodepools :=
     [\<lparr>np_Name = ''a'', np_Databases = [\<lparr>db_ID = ''101'', db_Name = ''orders''\<rparr>]\<rparr>,
      \<lparr>np_Name = ''b'', np_Databases = [\<lparr>db_ID = ''101'', db_Name = ''orders''\<rparr>, \<lparr>db_ID = ''102'', db_Name = ''users''\<rparr>]\<rparr>]\<rparr>"

definition demo_app :: "demo_world app" where
  "demo_app = \<lparr>app_client = NewClientWithAPI []
     \<lparr>dw_stored = [''101'' \<mapsto> [''10.0.0.0/8''], ''102'' \<mapsto> []], dw_script = []\<rparr>, app_spawned = []\<rparr>"

abbreviation demo_add :: "demo_world app node_handler" where
  "demo_add \<equiv> add_handler calm_env (demo_kube []) demo_fleet"

abbreviation demo_delete :: "demo_world app node_handler" where
  "demo_delete \<equiv> delete_handler calm_env (demo_kube []) demo_fleet"

lemma fleet_dbs:
  "pool_dbs demo_fleet np = (if np = ''a'' then {''101''} else if np = ''b'' then {''101'', ''102''} else {})"
  by (simp add: pool_dbs_def demo_fleet_def)

lemma fleet_label [simp]: "getNodepoolLabelValue demo_fleet (Some (demo_node name pool ips)) = pool"
  by (simp add: getNodepoolLabelValue_def demo_node_def demo_fleet_def DefaultConfig_def)

lemma fleet_watched [simp]: "isNodeInWatchedNodepool demo_fleet (demo_node name pool ips) \<longleftrightarrow> pool \<in> {''a'', ''b''}"
  by (auto simp: isNodeInWatchedNodepool_def) (auto simp: demo_fleet_def)

lemma demo_node_ips:
  assumes "EnableIPv4 cfg" and "\<not> EnableIPv6 cfg"
  shows "external_ips cfg (demo_node name pool ips) = {ip \<in> set ips. CHR '':'' \<notin> set ip}"
proof -
  have enabled: "family_enabled cfg ip \<longleftrightarrow> CHR '':'' \<notin> set ip" for ip
    using assms by (simp add: family_enabled_def)
  have "external_ips cfg (demo_node name pool ips) =
      {addr_Address a | a. a \<in> (\<lambda>ip. \<lparr>addr_Type = ''ExternalIP'', addr_Address = ip\<rparr>) ` set ips \<and>
         addr_Type a = NodeExternalIP \<and> CHR '':'' \<notin> set (addr_Address a)}"
    by (simp only: external_ips_def demo_node_def enabled node.simps set_map)
  also have "\<dots> = {ip \<in> set ips. CHR '':'' \<notin> set ip}" (is "?L = ?R")
  proof (rule equalityI; rule subsetI)
    fix x assume "x \<in> ?R"
    then show "x \<in> ?L"
      by (intro CollectI exI [of _ "\<lparr>addr_Type = ''ExternalIP'', addr_Address = x\<rparr>"]) (simp add: NodeExternalIP_def)
  qed auto
  finally show ?thesis .
qed

lemma fleet_ips: "external_ips demo_fleet (demo_node name pool ips) = {ip \<in> set ips. CHR '':'' \<notin> set ip}"
  by (rule demo_node_ips) (simp_all add: demo_fleet_def DefaultConfig_def)

lemma demo_app_stored: "dw_stored (world (app_client demo_app)) = [''101'' \<mapsto> [''10.0.0.0/8''], ''102'' \<mapsto> []]"
  by (simp add: demo_app_def NewClientWithAPI_def)

lemma demo_app_inv:
  "client_inv calm_env (demo_kube nodes) demo_fleet dw_stored (\<lambda>_. 0) (app_client demo_app)"
proof -
  have "env_ok calm_env dw_stored"
    by (auto simp: env_ok_def api_laws_def calm_env_def demo_env_def demo_runtime_def demo_get_def
        range_order_sorted_list_of_set split: option.splits)
  moreover have "atomic_failures calm_env dw_stored"
    by (simp add: atomic_failures_def calm_env_def)
  moreover have "transient calm_env dw_stored (\<lambda>_. 0)"
    by (auto simp: transient_def calm_env_def demo_env_def demo_runtime_def demo_get_def split: option.splits)
  moreover have "kube_frame (demo_kube nodes) dw_stored (\<lambda>_. 0)"
    by (simp add: kube_frame_def demo_kube_def range_order_sorted_list_of_set)
  moreover have "cache_ok dw_stored (app_client demo_app)"
    by (simp add: cache_ok_def demo_app_def NewClientWithAPI_def)
  moreover have "0 < MaxAttempts (Retry demo_fleet)"
    by (simp add: demo_fleet_def DefaultConfig_def)
  moreover have "\<forall>np. \<forall>d \<in> pool_dbs demo_fleet np. dw_stored (world (app_client demo_app)) d \<noteq> None"
    by (simp add: fleet_dbs demo_app_stored)
  ultimately show ?thesis by (simp add: client_inv_def)
qed

lemma fleet_entries:
  "node_entries demo_fleet (demo_node name pool [''192.0.2.9'']) = {''192.0.2.9/32''}"
  "node_entries demo_fleet (demo_node name pool [''192.0.2.7'']) = {''192.0.2.7/32''}"
  by (auto simp: node_entries_def fleet_ips normalizeIP_def)

lemma fleet_admitted: "admitted_by dw_stored demo_app = [''101'' \<mapsto> {''10.0.0.0/8''}, ''102'' \<mapsto> {}]"
  by (auto simp: admitted_by_def demo_app_stored entries_def demo_normal)

text \<open>A reused address: the new node is announced before the old one is deleted.\<close>

definition reused_address :: "notification list" where
  "reused_address =
     [Added (NodeObj (demo_node ''old'' ''a'' [''192.0.2.9''])), Added (NodeObj (demo_node ''new'' ''a'' [''192.0.2.9''])),
      Deleted (NodeObj (demo_node ''old'' ''a'' [''192.0.2.9'']))]"

fun list_after :: "demo_world app outcome \<Rightarrow> string \<Rightarrow> string list option" where
  "list_after (Returns a) d = dw_stored (world (app_client a)) d"
| "list_after (Panics msg) d = None"

text \<open>Goroutines run in any order, given by their positions.\<close>

definition run_schedule :: "'w kube_env \<Rightarrow> config \<Rightarrow> nat list \<Rightarrow> 'w app \<Rightarrow> 'w app" where
  "run_schedule kube cfg is a = fold (run_spawned kube cfg) is a"

definition pool_count :: "config \<Rightarrow> node list \<Rightarrow> string \<Rightarrow> real" where
  "pool_count cfg nodes np = real (length (filter (\<lambda>nd. getNodepoolLabelValue cfg (Some nd) = np) nodes))"

definition counts_inv :: "config \<Rightarrow> ('w \<Rightarrow> node list) \<Rightarrow> node list \<Rightarrow> string set \<Rightarrow> 'w app \<Rightarrow> bool" where
  "counts_inv cfg N nodes P a \<longleftrightarrow>
     N (world (app_client a)) = nodes \<and> [] \<notin> set (app_spawned a) \<and>
     (\<forall>np \<in> P. np \<in> set (app_spawned a) \<or>
        gauge_value (client_metrics (app_client a)) ''nodes_watched'' [np] = pool_count cfg nodes np)"

lemma counts_inv_step:
  assumes api: "api_lists kube cfg N" and inv: "counts_inv cfg N nodes P a"
  shows "counts_inv cfg N nodes P (run_spawned kube cfg i a)"
proof (cases "i < length (app_spawned a)")
  case True
  let ?np = "app_spawned a ! i" let ?c = "app_client a"
  obtain r w where g: "GetNodesByNodepool kube cfg ?np (world ?c) = (r, w)" by fastforce
  have np: "?np \<in> set (app_spawned a)" using True by simp
  then have "?np \<noteq> []" using inv by (auto simp: counts_inv_def)
  from GetNodesByNodepool_api [OF api this g] inv
  have r: "r = Inr (filter (\<lambda>nd. getNodepoolLabelValue cfg (Some nd) = ?np) nodes)" and w: "N w = nodes"
    by (simp_all add: counts_inv_def)
  have split: "set (app_spawned a) = insert ?np (set (take i (app_spawned a) @ drop (Suc i) (app_spawned a)))"
    using id_take_nth_drop [OF True] by (metis Un_insert_right list.simps(15) set_append)
  have run: "run_spawned kube cfg i a =
      \<lparr>app_client = with_metrics (UpdateNodesWatched ?np
          (int (length (filter (\<lambda>nd. getNodepoolLabelValue cfg (Some nd) = ?np) nodes)))) (?c\<lparr>world := w\<rparr>),
        app_spawned = take i (app_spawned a) @ drop (Suc i) (app_spawned a)\<rparr>"
    using True g r by (simp add: run_spawned_def node_count_goroutine_def)
  show ?thesis
    using inv w split
    by (auto simp: counts_inv_def run with_metrics_def UpdateNodesWatched_def pool_count_def)
qed (simp add: run_spawned_def inv)

lemma counts_inv_schedule:
  assumes api: "api_lists kube cfg N" and inv: "counts_inv cfg N nodes P a"
  shows "counts_inv cfg N nodes P (run_schedule kube cfg is a)"
  unfolding run_schedule_def by (rule fold_inv) (simp_all add: inv counts_inv_step [OF api])

section \<open>Properties\<close>



text \<open>
  What no notification is about is left alone: an entry that is no address of a notified node is in a
  list after the run exactly if it was before. So entries kept by hand survive; and so do the
  entries of a node that was deleted while this process was not watching, which no later stream
  mentions.
\<close>

theorem unmentioned_entries_stay:
  assumes inv: "client_inv lin kube cfg C trouble (app_client a)" and "list_all about_nodes evs"
    and "\<forall>ev \<in> set evs. \<forall>nd \<in> notified_nodes ev. x \<notin> node_entries cfg nd"
  shows "\<exists>a'. notify_all cfg (add_handler lin kube cfg) (delete_handler lin kube cfg) evs a = Returns a' \<and>
    (\<forall>d. (\<exists>S. admitted_by C a' d = Some S \<and> x \<in> S) \<longleftrightarrow> (\<exists>S. admitted_by C a d = Some S \<and> x \<in> S))"
proof -
  have "\<forall>ev \<in> set evs. about_nodes ev" using assms(2) by (simp add: list_all_iff)
  then obtain a' where a': "notify_all cfg (add_handler lin kube cfg) (delete_handler lin kube cfg) evs a = Returns a'"
    "admitted_by C a' = fold (abs_notify cfg (admit cfg) (revoke cfg)) evs (admitted_by C a)"
    using mirror.notify_all_refines [OF inv] by blast
  have "has_entry x (fold (abs_notify cfg (admit cfg) (revoke cfg)) evs A) d = has_entry x A d" for A d
    using assms(3) by (induction evs arbitrary: A) (auto simp: abs_notify_unmentioned)
  then show ?thesis using a' by (auto simp: has_entry_def)
qed

theorem unmentioned_entries_stay_witness:
  "\<exists>a'. notify_all demo_fleet demo_add demo_delete [Deleted (NodeObj (demo_node ''n'' ''a'' [''192.0.2.9'']))] demo_app =
      Returns a' \<and> (\<exists>S. admitted_by dw_stored a' ''101'' = Some S \<and> ''10.0.0.0/8'' \<in> S)"
proof -
  let ?evs = "[Deleted (NodeObj (demo_node ''n'' ''a'' [''192.0.2.9'']))]"
  have "list_all about_nodes ?evs"
    and "\<forall>ev \<in> set ?evs. \<forall>nd \<in> notified_nodes ev. ''10.0.0.0/8'' \<notin> node_entries demo_fleet nd"
    by (simp_all add: node_of_def fleet_entries)
  from unmentioned_entries_stay [OF demo_app_inv [of "[]"] this] show ?thesis
    by (auto simp: fleet_admitted)
qed



text \<open>
  A node without an external address of an enabled family is an error of the event: nothing is
  called, cached or stored; the event and the failure are counted.
\<close>

theorem handleNodeEvent_without_address:
  assumes "external_ips cfg nd = {}"
    and "range_order_ok (ipv4_order kube (world (app_client a)))" and "range_order_ok (ipv6_order kube (world (app_client a)))"
  shows "\<exists>err. fst (handleNodeEvent lin kube cfg nd eventType a) = Some err \<and>
    contains err (''addresses found for node '' @ node_Name nd) \<and>
    snd (handleNodeEvent lin kube cfg nd eventType a) = a\<lparr>app_client := (app_client a)\<lparr>client_metrics :=
      client_metrics (app_client a) @
        [CounterInc (if eventType = ''add'' then ''node_adds_total'' else ''node_deletes_total'')
           [getNodepoolLabelValue cfg (Some nd)],
         CounterInc ''node_processing_errors_total''
           [getNodepoolLabelValue cfg (Some nd), eventType, ''ip_extraction_failure'']]\<rparr>\<rparr>"
proof -
  let ?ips = "GetExternalIPs cfg (ipv4_order kube (world (app_client a))) (ipv6_order kube (world (app_client a))) nd"
  obtain err where err: "?ips = Inl err"
    using GetExternalIPs_spec [OF assms(2,3), of cfg nd] assms(1) by (cases ?ips) auto
  have "err = (''no external '' @ join '' or '' ((if EnableIPv4 cfg then [''IPv4''] else []) @
      (if EnableIPv6 cfg then [''IPv6''] else [])) @ '' '') @ (''addresses found for node '' @ node_Name nd) @ []"
    using err by (simp add: GetExternalIPs_def Let_def split: prod.splits if_splits)
  then have "contains err (''addresses found for node '' @ node_Name nd)" unfolding contains_iff by blast
  then show ?thesis
    using err by (simp add: handleNodeEvent_def GetNodepoolLabelValue_def Let_def with_metrics_def
        IncrementNodeAdds_def IncrementNodeDeletes_def IncrementNodeProcessingErrors_def)
qed

theorem handleNodeEvent_without_address_witness:
  "fst (handleNodeEvent calm_env (demo_kube []) demo_fleet (demo_node ''n'' ''a'' [''::1'']) ''add'' demo_app) \<noteq> None"
proof -
  have "external_ips demo_fleet (demo_node ''n'' ''a'' [''::1'']) = {}" by (simp add: fleet_ips)
  from handleNodeEvent_without_address [OF this, of "demo_kube []" demo_app calm_env "''add''"] show ?thesis
    by (auto simp: demo_kube_def range_order_sorted_list_of_set)
qed




text \<open>
  The flag \<^verbatim>\<open>--log-level\<close> overrides the configured level after validation: it is not validated itself,
  and a level that zap does not know leaves the logger at info, with the unknown level in the
  configuration.
\<close>

theorem log_level_flag_not_validated:
  assumes "Load os file = Inr cfg" and "\<And>l. build l = None" and "flag \<noteq> []"
  shows "\<exists>level. main_config os build file flag = Inr (cfg\<lparr>LogLevel := to_lower flag\<rparr>, level) \<and>
    (to_lower flag \<notin> {''debug'', ''warn'', ''error''} \<longrightarrow> level = InfoLevel)"
proof -
  have "to_lower flag \<noteq> []" using assms(3) by (simp add: to_lower_def)
  then show ?thesis using assms by (auto simp: main_config_def initLogger_def Let_def)
qed

theorem log_level_flag_not_validated_witness:
  "main_config demo_os (\<lambda>_. None) ''cfg'' ''VERBOSE'' = Inr (demo_config\<lparr>LogLevel := ''verbose''\<rparr>, InfoLevel)"
proof -
  have l: "to_lower ''VERBOSE'' = ''verbose''" by code_simp
  then show ?thesis
    using log_level_flag_not_validated [OF demo_Load, of "\<lambda>_. None" "''VERBOSE''"] by auto
qed

end
