(* ===== verification/LeaderElection.thy ===== *)
theory LeaderElection
  imports Reliability ErrorClassification Metrics "HOL-Library.AList"
begin

text \<open>
  \<^verbatim>\<open>pkg/kubernetes/client.go\<close>, the part that runs the leader election: \<^verbatim>\<open>NewClient\<close>, \<^verbatim>\<open>Start\<close> and its
  monitor loop, the callbacks of \<^verbatim>\<open>runLeaderElection\<close>, the stop channel, and the life of \<^verbatim>\<open>watchNodes\<close>.
  Each piece of code that runs without blocking is a function on the state; the goroutines are put
  together by a step relation, one rule for each point at which one of them proceeds. What client-go
  does (when it calls the callbacks) and what the cluster and the clock do is the choice of the step.

  Contexts and stop channels are numbers: the context of election \<open>e\<close> is done when \<open>e\<close> has been
  cancelled or the context of \<^verbatim>\<open>Start\<close> is done. An informer is the number of the stop channel it was
  started with; it runs until that channel is closed.
\<close>

definition LeaseDuration :: int where "LeaseDuration = 15 * time_Second"
definition RenewDeadline :: int where "RenewDeadline = 10 * time_Second"
definition RetryPeriod :: int where "RetryPeriod = 2 * time_Second"

text \<open>Where the goroutine that runs \<^verbatim>\<open>Start\<close> is.\<close>

datatype monitor = NotStarted | Monitoring | BackingOff int | Returned go_error | Exited

text \<open>An election (a call of \<^verbatim>\<open>leaderelection.RunOrDie\<close>).\<close>

datatype election = NotRunning | Acquiring | Leading | Finished

text \<open>The goroutine of \<^verbatim>\<open>OnStartedLeading\<close> of an election.\<close>

datatype watch = WatchNone | WatchStarting | WatchSyncing nat | WatchRunning nat | WatchReturned

record elector =
  addRegistered :: bool
  delRegistered :: bool
  isLeader :: bool
  stopCh :: nat
  closedCh :: "nat set"
  nextCh :: nat
  informers :: "nat list"
  errorsCount :: "(string \<times> nat) list"
  restartsCount :: nat
  tracker_of :: tracker
  el_metrics :: "metrics option"
  phase :: monitor
  current :: nat
  cancelled :: "nat set"
  parentDone :: bool
  errCh :: "go_error list"
  elections :: "nat \<Rightarrow> election"
  watches :: "nat \<Rightarrow> watch"
  now :: int
  history :: "int option list"

text \<open>\<^verbatim>\<open>history\<close> is a ghost: the failures (with their times) and successes reported to the tracker.\<close>

section \<open>Creation\<close>

text \<open>What \<^verbatim>\<open>NewClient\<close> uses of client-go: the two ways to a configuration and the clientset.\<close>

record 'k kube_setup =
  InClusterConfig :: "'k result"
  BuildConfigFromFlags :: "string \<Rightarrow> 'k result"
  NewForConfig :: "'k \<Rightarrow> go_error option"

definition new_elector :: "metrics option \<Rightarrow> int \<Rightarrow> elector" where
  "new_elector m t =
     \<lparr>addRegistered = False, delRegistered = False, isLeader = False, stopCh = 0, closedCh = {}, nextCh = 1,
      informers = [], errorsCount = [], restartsCount = 0, tracker_of = NewReliabilityTracker t,
      el_metrics = m, phase = NotStarted, current = 0, cancelled = {}, parentDone = False, errCh = [],
      elections = (\<lambda>_. NotRunning), watches = (\<lambda>_. WatchNone), now = t, history = []\<rparr>"

definition NewClient :: "'k kube_setup \<Rightarrow> string \<Rightarrow> metrics option \<Rightarrow> int \<Rightarrow> elector result" where
  "NewClient k kubeconfigPath m t =
     (case (if kubeconfigPath = [] then
              (case InClusterConfig k of
                 Inl err \<Rightarrow> Inl (''failed to create in-cluster config: '' @ err) | Inr c \<Rightarrow> Inr c)
            else
              (case BuildConfigFromFlags k kubeconfigPath of
                 Inl err \<Rightarrow> Inl (''failed to build config from kubeconfig: '' @ err) | Inr c \<Rightarrow> Inr c)) of
        Inl err \<Rightarrow> Inl err
      | Inr kubeConfig \<Rightarrow>
          (case NewForConfig k kubeConfig of
             Some err \<Rightarrow> Inl (''failed to create Kubernetes client: '' @ err)
           | None \<Rightarrow> Inr (new_elector m t)))"

text \<open>\<^verbatim>\<open>RegisterNodeHandlers\<close>: the flags say whether a handler is given (not nil).\<close>

definition RegisterNodeHandlers :: "bool \<Rightarrow> bool \<Rightarrow> elector \<Rightarrow> elector" where
  "RegisterNodeHandlers a d c = c\<lparr>addRegistered := a, delRegistered := d\<rparr>"

section \<open>Counters and metrics\<close>

definition metric :: "(metrics \<Rightarrow> metrics) \<Rightarrow> elector \<Rightarrow> elector" where
  "metric f c = c\<lparr>el_metrics := map_option f (el_metrics c)\<rparr>"

definition incrementLeaderElectionError :: "string \<Rightarrow> elector \<Rightarrow> elector" where
  "incrementLeaderElectionError errorType c =
     (let n = (case map_of (errorsCount c) errorType of None \<Rightarrow> 0 | Some n \<Rightarrow> n)
      in metric (IncrementLeaderElectionError errorType)
           (c\<lparr>errorsCount := AList.update errorType (Suc n) (errorsCount c)\<rparr>))"

definition incrementLeaderElectionRestart :: "elector \<Rightarrow> elector" where
  "incrementLeaderElectionRestart c =
     metric IncrementLeaderElectionRestart (c\<lparr>restartsCount := Suc (restartsCount c)\<rparr>)"

definition GetErrorCounts :: "elector \<Rightarrow> (string \<times> nat) list" where
  "GetErrorCounts c = errorsCount c"

definition GetRestartCount :: "elector \<Rightarrow> nat" where
  "GetRestartCount c = restartsCount c"

definition IsLeader :: "elector \<Rightarrow> bool" where
  "IsLeader c = isLeader c"

section \<open>Contexts and channels\<close>

definition ctx_done :: "nat \<Rightarrow> elector \<Rightarrow> bool" where
  "ctx_done e c \<longleftrightarrow> e \<in> cancelled c \<or> parentDone c"

text \<open>A send in a \<^verbatim>\<open>select\<close> with a \<^verbatim>\<open>default\<close>, to a channel of capacity 1.\<close>

definition try_send :: "go_error \<Rightarrow> elector \<Rightarrow> elector" where
  "try_send err c = (if errCh c = [] then c\<lparr>errCh := [err]\<rparr> else c)"

text \<open>\<^verbatim>\<open>Stop\<close> closes the stop channel; closing it a second time panics.\<close>

definition Stop :: "elector \<Rightarrow> elector option" where
  "Stop c = (if stopCh c \<in> closedCh c then None else Some (c\<lparr>closedCh := insert (stopCh c) (closedCh c)\<rparr>))"

section \<open>The callbacks\<close>

text \<open>\<^verbatim>\<open>OnStartedLeading\<close> up to the call of \<^verbatim>\<open>watchNodes\<close>, and \<^verbatim>\<open>watchNodes\<close> up to waiting for the cache.\<close>

definition OnStartedLeading :: "nat \<Rightarrow> elector \<Rightarrow> elector" where
  "OnStartedLeading e c =
     (let c1 = metric (SetLeaderStatus True) (c\<lparr>isLeader := True\<rparr>);
          c2 = c1\<lparr>tracker_of := RecordSuccess (tracker_of c1), history := history c1 @ [None]\<rparr>
      in c2\<lparr>informers := informers c2 @ [stopCh c2], watches := (watches c2)(e := WatchSyncing (stopCh c2))\<rparr>)"

text \<open>\<^verbatim>\<open>watchNodes\<close> after the wait: the cache has synced, or has not before the channel was closed.\<close>

definition watch_synced :: "nat \<Rightarrow> nat \<Rightarrow> elector \<Rightarrow> elector" where
  "watch_synced e ch c = c\<lparr>watches := (watches c)(e := WatchRunning ch)\<rparr>"

definition watch_sync_error :: go_error where
  "watch_sync_error = ''timed out waiting for node informer cache to sync''"

definition watch_sync_failed :: "nat \<Rightarrow> elector \<Rightarrow> elector" where
  "watch_sync_failed e c =
     try_send (''Error watching nodes: '' @ watch_sync_error) (c\<lparr>watches := (watches c)(e := WatchReturned)\<rparr>)"

text \<open>\<^verbatim>\<open>watchNodes\<close> returns \<^verbatim>\<open>nil\<close> when the context of the leadership is done.\<close>

definition watch_finished :: "nat \<Rightarrow> elector \<Rightarrow> elector" where
  "watch_finished e c = c\<lparr>watches := (watches c)(e := WatchReturned)\<rparr>"

definition stopped_error :: go_error where
  "stopped_error = ''stopped leading unexpectedly''"

definition OnStoppedLeading :: "nat \<Rightarrow> elector \<Rightarrow> elector" where
  "OnStoppedLeading e c =
     (let c1 = metric (SetLeaderStatus False) (c\<lparr>isLeader := False\<rparr>);
          c2 = c1\<lparr>stopCh := nextCh c1, nextCh := Suc (nextCh c1)\<rparr>
      in if \<not> ctx_done e c2 then try_send stopped_error c2 else c2)"

definition OnNewLeader :: "string \<Rightarrow> string \<Rightarrow> elector \<Rightarrow> elector" where
  "OnNewLeader hostname identity c =
     (if identity \<noteq> hostname then
        (let c1 = c\<lparr>isLeader := (identity = hostname)\<rparr> in metric (SetLeaderStatus (isLeader c1)) c1)
      else c)"

section \<open>\<open>Start\<close>\<close>

text \<open>\<^verbatim>\<open>go c.runLeaderElection(electionCtx, electionErrCh)\<close> for the election with number \<open>e\<close>.\<close>

definition run_election :: "nat \<Rightarrow> elector \<Rightarrow> elector" where
  "run_election e c = c\<lparr>current := e, elections := (elections c)(e := Acquiring)\<rparr>"

definition Start :: "elector \<Rightarrow> elector" where
  "Start c =
     (if \<not> addRegistered c \<or> \<not> delRegistered c
      then c\<lparr>phase := Returned ''node handlers are not registered''\<rparr>
      else run_election 0 (c\<lparr>phase := Monitoring, errCh := []\<rparr>))"

definition context_canceled :: go_error where
  "context_canceled = ''context canceled''"

text \<open>An error received by the monitor, up to the wait for the backoff; \<^verbatim>\<open>logger.Fatal\<close> exits.\<close>

definition handle_error ::
  "(real \<Rightarrow> real) \<Rightarrow> (real \<Rightarrow> int) \<Rightarrow> real \<Rightarrow> go_error \<Rightarrow> elector \<Rightarrow> elector" where
  "handle_error fl ovf rand err c =
     (let c0 = c\<lparr>errCh := []\<rparr>;
          c1 = (if el_metrics c0 \<noteq> None then
                  incrementLeaderElectionRestart
                    (incrementLeaderElectionError (ClassifyLeaderElectionError (Some err))
                      (metric (SetLeaderStatus False) c0))
                else c0);
          c2 = c1\<lparr>tracker_of := RecordFailure (now c1) (tracker_of c1), history := history c1 @ [Some (now c1)]\<rparr>
      in case IsCircuitOpen (now c2) (tracker_of c2) of
           (isOpen, r) \<Rightarrow>
             (let c3 = c2\<lparr>tracker_of := r\<rparr>
              in if isOpen then c3\<lparr>phase := Exited\<rparr>
                 else c3\<lparr>phase := BackingOff (GetBackoffDuration fl ovf rand (tracker_of c3))\<rparr>))"

text \<open>After the backoff: the old election is cancelled and a new one is started.\<close>

definition restart_election :: "elector \<Rightarrow> elector" where
  "restart_election c =
     run_election (Suc (current c)) (c\<lparr>cancelled := insert (current c) (cancelled c), phase := Monitoring\<rparr>)"

text \<open>
  What \<^verbatim>\<open>main\<close> makes of it: an error of \<^verbatim>\<open>Start\<close> is fatal (exit status 1), and so is the open breaker.
\<close>

fun main_exit_status :: "monitor \<Rightarrow> int option" where
  "main_exit_status (Returned err) = Some 1"
| "main_exit_status Exited = Some 1"
| "main_exit_status ph = None"

section \<open>The steps\<close>

text \<open>
  One rule per point at which a goroutine proceeds, for a host \<open>host\<close> and a float arithmetic \<open>fl\<close>, \<open>ovf\<close>.
  client-go acquires the lease, calls \<^verbatim>\<open>OnStartedLeading\<close> in a goroutine, calls \<^verbatim>\<open>OnStoppedLeading\<close> when
  the election ends (the lease is lost, or the context is done), and reports leaders at any time. As
  the program is wired, nothing calls \<^verbatim>\<open>Stop\<close>.
\<close>

inductive elector_step :: "(real \<Rightarrow> real) \<Rightarrow> (real \<Rightarrow> int) \<Rightarrow> string \<Rightarrow> elector \<Rightarrow> elector \<Rightarrow> bool"
  for fl ovf host where
  tick: "now c \<le> t \<Longrightarrow> elector_step fl ovf host c (c\<lparr>now := t\<rparr>)"
| shutdown: "elector_step fl ovf host c (c\<lparr>parentDone := True\<rparr>)"
| acquired: "elections c e = Acquiring \<Longrightarrow>
    elector_step fl ovf host c (c\<lparr>elections := (elections c)(e := Leading), watches := (watches c)(e := WatchStarting)\<rparr>)"
| started_leading: "watches c e = WatchStarting \<Longrightarrow> elector_step fl ovf host c (OnStartedLeading e c)"
| synced: "watches c e = WatchSyncing ch \<Longrightarrow> elector_step fl ovf host c (watch_synced e ch c)"
| sync_failed: "watches c e = WatchSyncing ch \<Longrightarrow> ch \<in> closedCh c \<Longrightarrow>
    elector_step fl ovf host c (watch_sync_failed e c)"
| watch_done: "watches c e = WatchRunning ch \<Longrightarrow> elections c e = Finished \<or> ctx_done e c \<Longrightarrow>
    elector_step fl ovf host c (watch_finished e c)"
| lost_lease: "elections c e = Leading \<Longrightarrow>
    elector_step fl ovf host c (OnStoppedLeading e (c\<lparr>elections := (elections c)(e := Finished)\<rparr>))"
| gave_up: "elections c e = Acquiring \<Longrightarrow> ctx_done e c \<Longrightarrow>
    elector_step fl ovf host c (OnStoppedLeading e (c\<lparr>elections := (elections c)(e := Finished)\<rparr>))"
| new_leader: "elections c e \<noteq> NotRunning \<Longrightarrow> elector_step fl ovf host c (OnNewLeader host identity c)"
| received: "phase c = Monitoring \<Longrightarrow> errCh c = [err] \<Longrightarrow> 0 \<le> rand \<Longrightarrow> rand < 1 \<Longrightarrow>
    elector_step fl ovf host c (handle_error fl ovf rand err c)"
| backoff_over: "phase c = BackingOff d \<Longrightarrow> elector_step fl ovf host c (restart_election c)"
| start_returns: "phase c = Monitoring \<or> phase c = BackingOff d \<Longrightarrow> parentDone c \<Longrightarrow>
    elector_step fl ovf host c (c\<lparr>phase := Returned context_canceled\<rparr>)"

text \<open>The states of the program: a new client with its handlers, started, and what the steps make of it.\<close>

inductive elector_reachable :: "(real \<Rightarrow> real) \<Rightarrow> (real \<Rightarrow> int) \<Rightarrow> string \<Rightarrow> elector \<Rightarrow> bool"
  for fl ovf host where
  boot: "elector_reachable fl ovf host (Start (RegisterNodeHandlers True True (new_elector m t)))"
| run: "elector_reachable fl ovf host c \<Longrightarrow> phase c \<noteq> Exited \<Longrightarrow> elector_step fl ovf host c c' \<Longrightarrow>
    elector_reachable fl ovf host c'"

end
