(* ===== verification/ElectionProps.thy ===== *)
theory ElectionProps
  imports LeaderElection
begin

text \<open>
  Invariants of the leader election, kept by every step, and the properties they give in every
  reachable state.
\<close>

section \<open>The elections and the monitor\<close>

text \<open>
  Only the current election runs, and its context has not been cancelled; the error channel holds at
  most the notice that it has stopped; a current election that has finished is on its way to a
  restart, unless the program is shutting down or has exited.
\<close>

definition running :: "nat \<Rightarrow> elector \<Rightarrow> bool" where
  "running e c \<longleftrightarrow> elections c e = Acquiring \<or> elections c e = Leading"

definition election_inv :: "elector \<Rightarrow> bool" where
  "election_inv c \<longleftrightarrow>
     (\<forall>e. e \<noteq> current c \<longrightarrow> \<not> running e c) \<and>
     (\<forall>e. current c < e \<longrightarrow> elections c e = NotRunning) \<and>
     elections c (current c) \<noteq> NotRunning \<and>
     (\<forall>e \<in> cancelled c. e < current c) \<and>
     closedCh c = {} \<and>
     errCh c \<in> {[], [stopped_error]} \<and>
     (running (current c) c \<longrightarrow> errCh c = [] \<and> (phase c = Monitoring \<or> (\<exists>m. phase c = Returned m))) \<and>
     (\<forall>d. phase c = BackingOff d \<longrightarrow> errCh c = []) \<and>
     (elections c (current c) = Finished \<longrightarrow>
        parentDone c \<or> errCh c \<noteq> [] \<or> (\<exists>d. phase c = BackingOff d) \<or> phase c = Exited) \<and>
     phase c \<noteq> NotStarted \<and>
     (\<forall>m. phase c = Returned m \<longrightarrow> m = context_canceled \<and> parentDone c)"

text \<open>What the functions leave alone.\<close>

lemma metric_frame [frame_simps]:
  "phase (metric f c) = phase c" "current (metric f c) = current c" "cancelled (metric f c) = cancelled c"
  "parentDone (metric f c) = parentDone c" "errCh (metric f c) = errCh c" "elections (metric f c) = elections c"
  "watches (metric f c) = watches c" "now (metric f c) = now c" "history (metric f c) = history c"
  "closedCh (metric f c) = closedCh c" "informers (metric f c) = informers c" "stopCh (metric f c) = stopCh c"
  "nextCh (metric f c) = nextCh c" "tracker_of (metric f c) = tracker_of c" "isLeader (metric f c) = isLeader c"
  "errorsCount (metric f c) = errorsCount c" "restartsCount (metric f c) = restartsCount c"
  "el_metrics (metric f c) = None \<longleftrightarrow> el_metrics c = None"
  by (simp_all add: metric_def)

lemma started_frame [frame_simps]:
  "phase (OnStartedLeading e c) = phase c" "current (OnStartedLeading e c) = current c"
  "cancelled (OnStartedLeading e c) = cancelled c" "parentDone (OnStartedLeading e c) = parentDone c"
  "errCh (OnStartedLeading e c) = errCh c" "elections (OnStartedLeading e c) = elections c"
  "closedCh (OnStartedLeading e c) = closedCh c" "now (OnStartedLeading e c) = now c"
  "errorsCount (OnStartedLeading e c) = errorsCount c" "restartsCount (OnStartedLeading e c) = restartsCount c"
  "informers (OnStartedLeading e c) = informers c @ [stopCh c]" "history (OnStartedLeading e c) = history c @ [None]"
  "tracker_of (OnStartedLeading e c) = RecordSuccess (tracker_of c)" "isLeader (OnStartedLeading e c)"
  "watches (OnStartedLeading e c) = (watches c)(e := WatchSyncing (stopCh c))"
  "el_metrics (OnStartedLeading e c) = None \<longleftrightarrow> el_metrics c = None"
  by (simp_all add: OnStartedLeading_def Let_def frame_simps)

lemma stopped_frame [frame_simps]:
  "phase (OnStoppedLeading e c) = phase c" "current (OnStoppedLeading e c) = current c"
  "cancelled (OnStoppedLeading e c) = cancelled c" "parentDone (OnStoppedLeading e c) = parentDone c"
  "elections (OnStoppedLeading e c) = elections c" "closedCh (OnStoppedLeading e c) = closedCh c"
  "now (OnStoppedLeading e c) = now c" "history (OnStoppedLeading e c) = history c"
  "tracker_of (OnStoppedLeading e c) = tracker_of c" "informers (OnStoppedLeading e c) = informers c"
  "errorsCount (OnStoppedLeading e c) = errorsCount c" "restartsCount (OnStoppedLeading e c) = restartsCount c"
  "watches (OnStoppedLeading e c) = watches c" "\<not> isLeader (OnStoppedLeading e c)"
  "errCh (OnStoppedLeading e c) = (if \<not> ctx_done e c \<and> errCh c = [] then [stopped_error] else errCh c)"
  "el_metrics (OnStoppedLeading e c) = None \<longleftrightarrow> el_metrics c = None"
  by (simp_all add: OnStoppedLeading_def Let_def try_send_def ctx_done_def frame_simps)

lemma new_leader_frame [frame_simps]:
  "phase (OnNewLeader h i c) = phase c" "current (OnNewLeader h i c) = current c"
  "cancelled (OnNewLeader h i c) = cancelled c" "parentDone (OnNewLeader h i c) = parentDone c"
  "errCh (OnNewLeader h i c) = errCh c" "elections (OnNewLeader h i c) = elections c"
  "closedCh (OnNewLeader h i c) = closedCh c" "now (OnNewLeader h i c) = now c"
  "history (OnNewLeader h i c) = history c" "tracker_of (OnNewLeader h i c) = tracker_of c"
  "informers (OnNewLeader h i c) = informers c" "errorsCount (OnNewLeader h i c) = errorsCount c"
  "restartsCount (OnNewLeader h i c) = restartsCount c" "watches (OnNewLeader h i c) = watches c"
  "el_metrics (OnNewLeader h i c) = None \<longleftrightarrow> el_metrics c = None"
  by (simp_all add: OnNewLeader_def Let_def frame_simps)

lemma increments_frame [frame_simps]:
  "phase (incrementLeaderElectionError t c) = phase c" "phase (incrementLeaderElectionRestart c) = phase c"
  "now (incrementLeaderElectionError t c) = now c" "now (incrementLeaderElectionRestart c) = now c"
  "history (incrementLeaderElectionError t c) = history c" "history (incrementLeaderElectionRestart c) = history c"
  "tracker_of (incrementLeaderElectionError t c) = tracker_of c"
  "tracker_of (incrementLeaderElectionRestart c) = tracker_of c"
  "current (incrementLeaderElectionError t c) = current c" "current (incrementLeaderElectionRestart c) = current c"
  "cancelled (incrementLeaderElectionError t c) = cancelled c"
  "cancelled (incrementLeaderElectionRestart c) = cancelled c"
  "parentDone (incrementLeaderElectionError t c) = parentDone c"
  "parentDone (incrementLeaderElectionRestart c) = parentDone c"
  "errCh (incrementLeaderElectionError t c) = errCh c" "errCh (incrementLeaderElectionRestart c) = errCh c"
  "elections (incrementLeaderElectionError t c) = elections c"
  "elections (incrementLeaderElectionRestart c) = elections c"
  "closedCh (incrementLeaderElectionError t c) = closedCh c" "closedCh (incrementLeaderElectionRestart c) = closedCh c"
  "informers (incrementLeaderElectionError t c) = informers c"
  "informers (incrementLeaderElectionRestart c) = informers c"
  "watches (incrementLeaderElectionError t c) = watches c" "watches (incrementLeaderElectionRestart c) = watches c"
  by (simp_all add: incrementLeaderElectionError_def incrementLeaderElectionRestart_def Let_def frame_simps)

lemma handle_error_frame [frame_simps]:
  "current (handle_error fl ovf x err c) = current c" "cancelled (handle_error fl ovf x err c) = cancelled c"
  "parentDone (handle_error fl ovf x err c) = parentDone c" "errCh (handle_error fl ovf x err c) = []"
  "elections (handle_error fl ovf x err c) = elections c" "closedCh (handle_error fl ovf x err c) = closedCh c"
  "informers (handle_error fl ovf x err c) = informers c" "now (handle_error fl ovf x err c) = now c"
  "watches (handle_error fl ovf x err c) = watches c"
  "history (handle_error fl ovf x err c) = history c @ [Some (now c)]"
  "tracker_of (handle_error fl ovf x err c) = snd (IsCircuitOpen (now c) (RecordFailure (now c) (tracker_of c)))"
  "phase (handle_error fl ovf x err c) =
     (if fst (IsCircuitOpen (now c) (RecordFailure (now c) (tracker_of c))) then Exited
      else BackingOff (GetBackoffDuration fl ovf x (snd (IsCircuitOpen (now c) (RecordFailure (now c) (tracker_of c))))))"
  by (auto simp: handle_error_def Let_def frame_simps split: prod.splits)

lemma restart_frame [frame_simps]:
  "current (restart_election c) = Suc (current c)" "cancelled (restart_election c) = insert (current c) (cancelled c)"
  "parentDone (restart_election c) = parentDone c" "errCh (restart_election c) = errCh c"
  "elections (restart_election c) = (elections c)(Suc (current c) := Acquiring)"
  "closedCh (restart_election c) = closedCh c" "informers (restart_election c) = informers c"
  "now (restart_election c) = now c" "history (restart_election c) = history c"
  "tracker_of (restart_election c) = tracker_of c" "phase (restart_election c) = Monitoring"
  "errorsCount (restart_election c) = errorsCount c" "restartsCount (restart_election c) = restartsCount c"
  "watches (restart_election c) = watches c" "el_metrics (restart_election c) = el_metrics c"
  by (simp_all add: restart_election_def run_election_def)

lemma watch_frame [frame_simps]:
  "election_inv (watch_synced e ch c) = election_inv c" "election_inv (watch_finished e c) = election_inv c"
  "election_inv (c\<lparr>now := t\<rparr>) = election_inv c"
  by (simp_all add: election_inv_def running_def watch_synced_def watch_finished_def)

lemma election_inv_boot: "election_inv (Start (RegisterNodeHandlers True True (new_elector m t)))"
  by (auto simp: election_inv_def running_def Start_def RegisterNodeHandlers_def new_elector_def run_election_def
      split: if_splits)

lemma election_inv_finish:
  assumes inv: "election_inv c" and "running e c"
  shows "election_inv (OnStoppedLeading e (c\<lparr>elections := (elections c)(e := Finished)\<rparr>))"
proof -
  have e: "e = current c" using inv assms(2) unfolding election_inv_def by blast
  then have "current c \<notin> cancelled c" "errCh c = []" "phase c = Monitoring \<or> (\<exists>m. phase c = Returned m)"
    using inv assms(2) by (auto simp: election_inv_def)
  then show ?thesis
    using inv unfolding e election_inv_def running_def
    by (auto simp: frame_simps ctx_done_def split: if_splits)
qed

lemma election_inv_acquired:
  assumes inv: "election_inv c" and "elections c e = Acquiring"
  shows "election_inv (c\<lparr>elections := (elections c)(e := Leading), watches := W\<rparr>)"
proof -
  have "running e c" using assms(2) by (simp add: running_def)
  then have e: "e = current c" using inv unfolding election_inv_def by blast
  then have "errCh c = []" "phase c = Monitoring \<or> (\<exists>m. phase c = Returned m)"
    using inv \<open>running e c\<close> by (auto simp: election_inv_def)
  then show ?thesis
    using inv unfolding e election_inv_def running_def by (auto split: if_splits)
qed

lemma election_inv_received:
  assumes inv: "election_inv c" and "errCh c = [err]"
  shows "election_inv (handle_error fl ovf x err c)"
proof -
  have "\<not> running (current c) c" using inv assms(2) by (auto simp: election_inv_def)
  then show ?thesis
    using inv unfolding election_inv_def running_def by (auto simp: frame_simps)
qed

lemma election_inv_restart:
  assumes inv: "election_inv c" and "phase c = BackingOff d"
  shows "election_inv (restart_election c)"
proof -
  have "\<not> running (current c) c" "errCh c = []" using inv assms(2) by (auto simp: election_inv_def)
  then have "\<not> running e c" for e using inv by (cases "e = current c") (auto simp: election_inv_def)
  then have "elections c e \<noteq> Acquiring" "elections c e \<noteq> Leading" for e by (auto simp: running_def)
  then show ?thesis
    using inv \<open>errCh c = []\<close> unfolding election_inv_def running_def by (auto simp: frame_simps less_SucI)
qed

lemma election_inv_step:
  assumes "elector_step fl ovf host c c'" and inv: "election_inv c"
  shows "election_inv c'"
  using assms(1)
proof cases
  case (tick t)
  then show ?thesis using inv by (simp add: frame_simps)
next
  case shutdown
  then show ?thesis using inv by (auto simp: election_inv_def running_def)
next
  case (acquired e)
  then show ?thesis using election_inv_acquired [OF inv] by simp
next
  case (started_leading e)
  then show ?thesis using inv by (simp add: election_inv_def running_def frame_simps)
next
  case (synced e ch)
  then show ?thesis using inv by (simp add: frame_simps)
next
  case (sync_failed e ch)
  then show ?thesis using inv by (simp add: election_inv_def)
next
  case (watch_done e ch)
  then show ?thesis using inv by (simp add: frame_simps)
next
  case (lost_lease e)
  then show ?thesis using election_inv_finish [OF inv] by (simp add: running_def)
next
  case (gave_up e)
  then show ?thesis using election_inv_finish [OF inv] by (simp add: running_def)
next
  case (new_leader e identity)
  then show ?thesis using inv by (simp add: election_inv_def running_def frame_simps)
next
  case (received err x)
  then show ?thesis using election_inv_received [OF inv] by simp
next
  case (backoff_over d)
  then show ?thesis using election_inv_restart [OF inv] by simp
next
  case (start_returns d)
  then show ?thesis using inv by (auto simp: election_inv_def running_def)
qed

lemma election_inv_reachable: "elector_reachable fl ovf host c \<Longrightarrow> election_inv c"
  by (induction rule: elector_reachable.induct) (auto intro: election_inv_boot election_inv_step)

section \<open>The tracker and the counters\<close>

text \<open>
  The tracker is the result of the reported failures and successes; the breaker is closed as long as
  the process runs; the counters count the failures.
\<close>

definition failure_count :: "elector \<Rightarrow> nat" where
  "failure_count c = length (failure_times (history c))"

definition tracking_inv :: "elector \<Rightarrow> bool" where
  "tracking_inv c \<longleftrightarrow>
     (\<exists>t0. tracker_of c = run_events (history c) (NewReliabilityTracker t0)) \<and>
     sorted (failure_times (history c)) \<and> (\<forall>t \<in> set (failure_times (history c)). t \<le> now c) \<and>
     circuit (tracker_of c) = (if phase c = Exited then CircuitOpen else CircuitClosed) \<and>
     (el_metrics c \<noteq> None \<longrightarrow> restartsCount c = failure_count c \<and>
        errorsCount c = (if failure_count c = 0 then [] else [(''leadership_lost'', failure_count c)])) \<and>
     (el_metrics c = None \<longrightarrow> restartsCount c = 0 \<and> errorsCount c = [])"

lemma run_events_snoc [simp]:
  "run_events (evs @ [Some t]) r = RecordFailure t (run_events evs r)"
  "run_events (evs @ [None]) r = RecordSuccess (run_events evs r)"
  by (simp_all add: run_events_def)

lemma RecordSuccess_closed: "circuit r \<noteq> CircuitHalfOpen \<Longrightarrow> circuit (RecordSuccess r) = circuit r"
  by (simp add: RecordSuccess_def Let_def)

lemma check_after_failure:
  assumes "circuit r = CircuitClosed"
  shows "snd (IsCircuitOpen t (RecordFailure t r)) = RecordFailure t r"
    and "fst (IsCircuitOpen t (RecordFailure t r)) \<longleftrightarrow> circuit (RecordFailure t r) = CircuitOpen"
    and "circuit (RecordFailure t r) \<noteq> CircuitHalfOpen"
  using assms by (auto simp: IsCircuitOpen_def RecordFailure_def Let_def CircuitBreakerCooldownPeriod_def time_Second_def)

lemma handle_error_counters:
  "el_metrics (handle_error fl ovf x err c) = None \<longleftrightarrow> el_metrics c = None"
  "restartsCount (handle_error fl ovf x err c) =
     (if el_metrics c = None then restartsCount c else Suc (restartsCount c))"
  "errorsCount (handle_error fl ovf x err c) =
     (if el_metrics c = None then errorsCount c
      else AList.update (ClassifyLeaderElectionError (Some err))
             (Suc (case map_of (errorsCount c) (ClassifyLeaderElectionError (Some err)) of None \<Rightarrow> 0 | Some n \<Rightarrow> n))
             (errorsCount c))"
  by (auto simp: handle_error_def Let_def incrementLeaderElectionError_def incrementLeaderElectionRestart_def
      metric_def split: prod.splits)

lemma failure_count_snoc:
  "failure_times (evs @ [Some t]) = failure_times evs @ [t]" "failure_times (evs @ [None]) = failure_times evs"
  by simp_all

lemma tracking_inv_boot: "tracking_inv (Start (RegisterNodeHandlers True True (new_elector m t)))"
  by (auto simp: tracking_inv_def failure_count_def Start_def RegisterNodeHandlers_def new_elector_def
      run_election_def run_events_def NewReliabilityTracker_def)

lemma tracking_inv_received:
  assumes inv: "tracking_inv c" and err: "errCh c = [stopped_error]" and "phase c = Monitoring"
  shows "tracking_inv (handle_error fl ovf x stopped_error c)"
proof -
  obtain t0 where t0: "tracker_of c = run_events (history c) (NewReliabilityTracker t0)"
    using inv by (auto simp: tracking_inv_def)
  have closed: "circuit (tracker_of c) = CircuitClosed" using inv assms(3) by (simp add: tracking_inv_def)
  note check = check_after_failure [OF closed, of "now c"]
  have cls: "ClassifyLeaderElectionError (Some stopped_error) = ''leadership_lost''"
    unfolding stopped_error_def by (rule classify_stopped_leading)
  have tr: "tracker_of (handle_error fl ovf x stopped_error c) = RecordFailure (now c) (tracker_of c)"
    by (simp add: frame_simps check(1))
  have ph: "phase (handle_error fl ovf x stopped_error c) = Exited \<longleftrightarrow>
      circuit (RecordFailure (now c) (tracker_of c)) = CircuitOpen"
    using check(2) by (simp add: frame_simps)
  have circ: "circuit (tracker_of (handle_error fl ovf x stopped_error c)) =
      (if phase (handle_error fl ovf x stopped_error c) = Exited then CircuitOpen else CircuitClosed)"
    using ph tr check(3) by (cases "circuit (RecordFailure (now c) (tracker_of c))") auto
  have hist: "history (handle_error fl ovf x stopped_error c) = history c @ [Some (now c)]"
    and nw: "now (handle_error fl ovf x stopped_error c) = now c" by (simp_all add: frame_simps)
  have run: "tracker_of (handle_error fl ovf x stopped_error c) =
      run_events (history c @ [Some (now c)]) (NewReliabilityTracker t0)"
    unfolding tr t0 by simp
  show ?thesis
    unfolding tracking_inv_def failure_count_def hist nw
    using inv run circ
    by (auto simp: tracking_inv_def failure_count_def sorted_append handle_error_counters cls)
qed

lemma tracking_inv_cong:
  assumes "tracking_inv c" and "tracker_of c' = tracker_of c" "history c' = history c" "now c \<le> now c'"
    "phase c' = Exited \<longleftrightarrow> phase c = Exited" "el_metrics c' = None \<longleftrightarrow> el_metrics c = None"
    "restartsCount c' = restartsCount c" "errorsCount c' = errorsCount c"
  shows "tracking_inv c'"
  using assms unfolding tracking_inv_def failure_count_def by fastforce

lemma tracking_inv_started: "tracking_inv c \<Longrightarrow> tracking_inv (OnStartedLeading e c)"
  unfolding tracking_inv_def failure_count_def frame_simps failure_count_snoc
  by (auto simp: RecordSuccess_closed simp flip: run_events_snoc)

lemma tracking_inv_step:
  assumes "elector_step fl ovf host c c'" and el: "election_inv c" and inv: "tracking_inv c"
    and "phase c \<noteq> Exited"
  shows "tracking_inv c'"
  using assms(1)
proof cases
  case (started_leading e)
  then show ?thesis using tracking_inv_started [OF inv] by simp
next
  case (sync_failed e ch)
  then show ?thesis using el by (simp add: election_inv_def)
next
  case (received err x)
  then have "err = stopped_error" using el by (auto simp: election_inv_def)
  then show ?thesis using tracking_inv_received [OF inv] received by simp
qed (rule tracking_inv_cong [OF inv]; use assms(4) in \<open>simp add: frame_simps watch_synced_def watch_finished_def\<close>)+

lemma tracking_inv_reachable: "elector_reachable fl ovf host c \<Longrightarrow> tracking_inv c"
proof (induction rule: elector_reachable.induct)
  case (boot m t)
  show ?case by (rule tracking_inv_boot)
next
  case (run c c')
  then show ?case using tracking_inv_step election_inv_reachable by blast
qed

section \<open>Informers and backoffs\<close>

definition leak_inv :: "elector \<Rightarrow> bool" where
  "leak_inv c \<longleftrightarrow> length (informers c) = count_list (history c) None"

definition backoff_inv :: "(real \<Rightarrow> real) \<Rightarrow> (real \<Rightarrow> int) \<Rightarrow> elector \<Rightarrow> bool" where
  "backoff_inv fl ovf c \<longleftrightarrow>
     (\<forall>d. phase c = BackingOff d \<longrightarrow>
        (\<exists>x r. 0 \<le> x \<and> x < 1 \<and> 1 \<le> retryCount r \<and> d = GetBackoffDuration fl ovf x r))"

lemma leak_inv_cong: "leak_inv c \<Longrightarrow> informers c' = informers c \<Longrightarrow> history c' = history c \<Longrightarrow> leak_inv c'"
  by (simp add: leak_inv_def)

lemma leak_inv_step:
  assumes "elector_step fl ovf host c c'" and el: "election_inv c" and inv: "leak_inv c"
  shows "leak_inv c'"
  using assms(1)
proof cases
  case (started_leading e)
  then show ?thesis using inv by (simp add: leak_inv_def frame_simps)
next
  case (sync_failed e ch)
  then show ?thesis using el by (simp add: election_inv_def)
next
  case (received err x)
  then show ?thesis using inv by (simp add: leak_inv_def frame_simps)
qed (rule leak_inv_cong [OF inv]; simp add: frame_simps watch_synced_def watch_finished_def)+

lemma leak_inv_reachable: "elector_reachable fl ovf host c \<Longrightarrow> leak_inv c"
proof (induction rule: elector_reachable.induct)
  case (boot m t)
  show ?case by (simp add: leak_inv_def Start_def RegisterNodeHandlers_def new_elector_def run_election_def)
next
  case (run c c')
  then show ?case using leak_inv_step election_inv_reachable by blast
qed

lemma backoff_inv_cong: "backoff_inv fl ovf c \<Longrightarrow> phase c' = phase c \<Longrightarrow> backoff_inv fl ovf c'"
  by (simp add: backoff_inv_def)

lemma backoff_inv_step:
  assumes "elector_step fl ovf host c c'" and el: "election_inv c" and tr: "tracking_inv c"
    and inv: "backoff_inv fl ovf c"
  shows "backoff_inv fl ovf c'"
  using assms(1)
proof cases
  case (sync_failed e ch)
  then show ?thesis using el by (simp add: election_inv_def)
next
  case (received err x)
  have closed: "circuit (tracker_of c) = CircuitClosed" using tr received(2) by (simp add: tracking_inv_def)
  have "1 \<le> retryCount (RecordFailure (now c) (tracker_of c))"
    using closed by (simp add: RecordFailure_def Let_def)
  then show ?thesis
    using received unfolding backoff_inv_def by (auto simp: frame_simps check_after_failure(1) [OF closed])
next
  case (backoff_over d)
  then show ?thesis by (simp add: backoff_inv_def frame_simps)
next
  case (start_returns d)
  then show ?thesis by (simp add: backoff_inv_def)
qed (rule backoff_inv_cong [OF inv]; simp add: frame_simps watch_synced_def watch_finished_def)+

lemma backoff_inv_reachable: "elector_reachable fl ovf host c \<Longrightarrow> backoff_inv fl ovf c"
proof (induction rule: elector_reachable.induct)
  case (boot m t)
  show ?case by (simp add: backoff_inv_def Start_def RegisterNodeHandlers_def new_elector_def run_election_def)
next
  case (run c c')
  then show ?case using backoff_inv_step election_inv_reachable tracking_inv_reachable by blast
qed

section \<open>Concrete runs\<close>

definition demo_boot :: elector where
  "demo_boot = Start (RegisterNodeHandlers True True (new_elector (Some []) 0))"

text \<open>Election \<open>e\<close> acquires the lease, and loses it; the monitor receives the error; the election is restarted.\<close>

definition do_acquire :: "nat \<Rightarrow> elector \<Rightarrow> elector" where
  "do_acquire e c = c\<lparr>elections := (elections c)(e := Leading), watches := (watches c)(e := WatchStarting)\<rparr>"

definition do_lose :: "nat \<Rightarrow> elector \<Rightarrow> elector" where
  "do_lose e c = OnStoppedLeading e (c\<lparr>elections := (elections c)(e := Finished)\<rparr>)"

definition do_fail :: "nat \<Rightarrow> elector \<Rightarrow> elector" where
  "do_fail e c = handle_error (\<lambda>x. x) (\<lambda>_. 0) 0 stopped_error (do_lose e (do_acquire e c))"

fun failing_run :: "nat \<Rightarrow> elector" where
  "failing_run 0 = demo_boot"
| "failing_run (Suc n) = restart_election (do_fail n (failing_run n))"

abbreviation demo_reachable :: "elector \<Rightarrow> bool" where
  "demo_reachable \<equiv> elector_reachable (\<lambda>x. x) (\<lambda>_. 0) ''host''"

lemma demo_boot_reachable: "demo_reachable demo_boot"
  unfolding demo_boot_def by (rule boot)

lemma do_acquire_reachable:
  "demo_reachable c \<Longrightarrow> phase c \<noteq> Exited \<Longrightarrow> elections c e = Acquiring \<Longrightarrow> demo_reachable (do_acquire e c)"
  unfolding do_acquire_def by (rule run [OF _ _ acquired])

lemma do_lose_reachable:
  "demo_reachable c \<Longrightarrow> phase c \<noteq> Exited \<Longrightarrow> elections c e = Leading \<Longrightarrow> demo_reachable (do_lose e c)"
  unfolding do_lose_def by (rule run [OF _ _ lost_lease])

lemma do_fail_reachable:
  assumes "demo_reachable c" and "phase c = Monitoring" and "elections c e = Acquiring" and "errCh c = []"
    and "\<not> ctx_done e c"
  shows "demo_reachable (do_fail e c)"
proof -
  have a: "demo_reachable (do_acquire e c)" using do_acquire_reachable assms by simp
  have "demo_reachable (do_lose e (do_acquire e c))"
    by (rule do_lose_reachable [OF a]) (simp_all add: do_acquire_def assms(2))
  moreover have "phase (do_lose e (do_acquire e c)) = Monitoring"
    and "errCh (do_lose e (do_acquire e c)) = [stopped_error]"
    using assms by (simp_all add: do_lose_def do_acquire_def frame_simps ctx_done_def)
  ultimately show ?thesis
    unfolding do_fail_def by (intro run [OF _ _ received]) simp_all
qed

lemma failures_at_once:
  "circuit (run_events (replicate n (Some 0)) (NewReliabilityTracker 0)) = (if n < 10 then CircuitClosed else CircuitOpen)"
proof -
  have t: "failure_times (replicate n (Some (0 :: int))) = replicate n 0" by (induction n) simp_all
  have "window_overrun (replicate n 0) \<longleftrightarrow> 10 \<le> n"
    by (auto simp: window_overrun_def tracker_consts intro: exI [of _ 0])
  then show ?thesis using run_events_window [of "replicate n (Some 0)" 0] by (simp add: t)
qed

lemma replicate_snoc: "replicate n x @ [x] = replicate (Suc n) x"
  by (simp add: replicate_append_same)

lemma do_fail_state:
  "current (do_fail e c) = current c" "cancelled (do_fail e c) = cancelled c" "parentDone (do_fail e c) = parentDone c"
  "errCh (do_fail e c) = []" "now (do_fail e c) = now c" "history (do_fail e c) = history c @ [Some (now c)]"
  "elections (do_fail e c) = (elections c)(e := Finished)" "el_metrics (do_fail e c) = None \<longleftrightarrow> el_metrics c = None"
  "tracker_of (do_fail e c) = snd (IsCircuitOpen (now c) (RecordFailure (now c) (tracker_of c)))"
  "phase (do_fail e c) = Exited \<longleftrightarrow> fst (IsCircuitOpen (now c) (RecordFailure (now c) (tracker_of c)))"
  by (auto simp: do_fail_def do_lose_def do_acquire_def frame_simps handle_error_counters)

lemma failing_run_state:
  "n < 10 \<Longrightarrow> phase (failing_run n) = Monitoring \<and> elections (failing_run n) n = Acquiring \<and>
    errCh (failing_run n) = [] \<and> \<not> ctx_done n (failing_run n) \<and> now (failing_run n) = 0 \<and>
    current (failing_run n) = n \<and> cancelled (failing_run n) \<subseteq> {..<n} \<and> \<not> parentDone (failing_run n) \<and>
    history (failing_run n) = replicate n (Some 0) \<and> el_metrics (failing_run n) \<noteq> None \<and>
    tracker_of (failing_run n) = run_events (replicate n (Some 0)) (NewReliabilityTracker 0)"
proof (induction n)
  case 0
  show ?case
    by (simp add: demo_boot_def Start_def RegisterNodeHandlers_def new_elector_def run_election_def ctx_done_def run_events_def)
next
  case (Suc n)
  then have IH: "current (failing_run n) = n" "cancelled (failing_run n) \<subseteq> {..<n}" "\<not> parentDone (failing_run n)"
    "now (failing_run n) = 0" "history (failing_run n) = replicate n (Some 0)" "el_metrics (failing_run n) \<noteq> None"
    "tracker_of (failing_run n) = run_events (replicate n (Some 0)) (NewReliabilityTracker 0)" by auto
  have closed: "circuit (run_events (replicate n (Some 0)) (NewReliabilityTracker 0)) = CircuitClosed"
    using failures_at_once [of n] Suc.prems by simp
  have "tracker_of (failing_run (Suc n)) = run_events (replicate n (Some 0) @ [Some 0]) (NewReliabilityTracker 0)"
    by (simp add: frame_simps do_fail_state IH check_after_failure(1) [OF closed])
  moreover have "history (failing_run (Suc n)) = replicate n (Some 0) @ [Some 0]"
    by (simp add: frame_simps do_fail_state IH)
  moreover have "cancelled (failing_run (Suc n)) \<subseteq> {..<Suc n}" and "Suc n \<notin> cancelled (failing_run (Suc n))"
  proof -
    have "cancelled (failing_run (Suc n)) = insert n (cancelled (failing_run n))"
      by (simp add: frame_simps do_fail_state IH(1))
    then show "cancelled (failing_run (Suc n)) \<subseteq> {..<Suc n}" and "Suc n \<notin> cancelled (failing_run (Suc n))"
      using IH(2) by fastforce+
  qed
  ultimately show ?case
    unfolding replicate_snoc using IH by (simp add: frame_simps do_fail_state ctx_done_def)
qed

lemma do_fail_phase:
  assumes "n < 9"
  shows "\<exists>d. phase (do_fail n (failing_run n)) = BackingOff d"
proof -
  have st: "now (failing_run n) = 0"
    "tracker_of (failing_run n) = run_events (replicate n (Some 0)) (NewReliabilityTracker 0)"
    using failing_run_state [of n] assms by auto
  have closed: "circuit (run_events (replicate n (Some 0)) (NewReliabilityTracker 0)) = CircuitClosed"
    using failures_at_once [of n] assms by simp
  have rf: "RecordFailure 0 (run_events (replicate n (Some 0)) (NewReliabilityTracker 0)) =
      run_events (replicate (Suc n) (Some 0)) (NewReliabilityTracker 0)"
    unfolding replicate_snoc [symmetric] by simp
  have "circuit (run_events (replicate (Suc n) (Some 0)) (NewReliabilityTracker 0)) = CircuitClosed"
    using failures_at_once [of "Suc n"] assms by simp
  then have "circuit (RecordFailure 0 (run_events (replicate n (Some 0)) (NewReliabilityTracker 0))) \<noteq> CircuitOpen"
    unfolding rf by (metis circuit_state.distinct(1))
  then have "\<not> fst (IsCircuitOpen 0 (RecordFailure 0 (run_events (replicate n (Some 0)) (NewReliabilityTracker 0))))"
    using check_after_failure(2) [OF closed, of 0] by blast
  then show ?thesis
    by (simp add: do_fail_def do_lose_def do_acquire_def frame_simps st)
qed

lemma failing_run_reachable: "n < 10 \<Longrightarrow> demo_reachable (failing_run n)"
proof (induction n)
  case 0
  show ?case by (simp add: demo_boot_reachable)
next
  case (Suc n)
  have "demo_reachable (do_fail n (failing_run n))"
    using Suc failing_run_state [of n] by (intro do_fail_reachable) simp_all
  moreover obtain d where "phase (do_fail n (failing_run n)) = BackingOff d" using do_fail_phase [of n] Suc.prems by auto
  ultimately show ?case by (auto intro: run [OF _ _ backoff_over])
qed

text \<open>The tenth failure at once.\<close>

definition demo_tripped :: elector where
  "demo_tripped = do_fail 9 (failing_run 9)"

lemma demo_tripped_reachable: "demo_reachable demo_tripped"
  unfolding demo_tripped_def using failing_run_reachable [of 9] failing_run_state [of 9]
  by (intro do_fail_reachable) simp_all

lemma demo_tripped_history: "history demo_tripped = replicate 10 (Some 0)"
  using failing_run_state [of 9] replicate_snoc [of 9 "Some (0 :: int)"]
  by (simp add: demo_tripped_def do_fail_state)

text \<open>A leader whose late report of an earlier leader has cleared the flag, and the flag set too late.\<close>

definition demo_leading :: elector where
  "demo_leading = watch_synced 0 0 (OnStartedLeading 0 (do_acquire 0 demo_boot))"

definition demo_unflagged :: elector where
  "demo_unflagged = OnNewLeader ''host'' ''other'' demo_leading"

definition demo_flagged :: elector where
  "demo_flagged = OnStartedLeading 0 (do_lose 0 (do_acquire 0 demo_boot))"

lemma demo_boot_state:
  "phase demo_boot = Monitoring" "elections demo_boot 0 = Acquiring" "errCh demo_boot = []" "stopCh demo_boot = 0"
  "informers demo_boot = []" "history demo_boot = []"
  by (simp_all add: demo_boot_def Start_def RegisterNodeHandlers_def new_elector_def run_election_def)

lemma demo_leading_reachable: "demo_reachable demo_leading"
proof -
  have "demo_reachable (do_acquire 0 demo_boot)"
    by (rule do_acquire_reachable [OF demo_boot_reachable]) (simp_all add: demo_boot_state)
  then have "demo_reachable (OnStartedLeading 0 (do_acquire 0 demo_boot))"
    by (rule run [OF _ _ started_leading]) (simp_all add: do_acquire_def demo_boot_state)
  then show ?thesis unfolding demo_leading_def
    by (rule run [OF _ _ synced]) (simp_all add: frame_simps do_acquire_def demo_boot_state)
qed

lemma demo_unflagged_reachable: "demo_reachable demo_unflagged"
  unfolding demo_unflagged_def
  by (rule run [OF demo_leading_reachable _ new_leader [where e = 0]])
    (simp_all add: demo_leading_def watch_synced_def frame_simps do_acquire_def demo_boot_state)

lemma demo_flagged_reachable: "demo_reachable demo_flagged"
proof -
  have a: "demo_reachable (do_acquire 0 demo_boot)"
    by (rule do_acquire_reachable [OF demo_boot_reachable]) (simp_all add: demo_boot_state)
  have "demo_reachable (do_lose 0 (do_acquire 0 demo_boot))"
    by (rule do_lose_reachable [OF a]) (simp_all add: do_acquire_def demo_boot_state)
  then show ?thesis unfolding demo_flagged_def
    by (rule run [OF _ _ started_leading]) (simp_all add: do_lose_def do_acquire_def frame_simps demo_boot_state)
qed

section \<open>Properties\<close>

text \<open>
  C5. In every state the program can reach, at most one election runs, the current one, with a context
  that has not been cancelled; and the program is never stuck: the current election runs, or its
  error waits to be received, or the monitor is backing off before a restart, or the program is
  shutting down or has exited.
\<close>

theorem one_election_never_stuck:
  assumes "elector_reachable fl ovf host c"
  shows "(elections c e \<in> {Acquiring, Leading} \<longrightarrow> e = current c \<and> e \<notin> cancelled c) \<and>
    (elections c (current c) \<in> {Acquiring, Leading} \<or> errCh c \<noteq> [] \<or> (\<exists>d. phase c = BackingOff d) \<or>
     parentDone c \<or> phase c = Exited)"
proof -
  have inv: "election_inv c" by (rule election_inv_reachable [OF assms])
  have "e = current c \<and> e \<notin> cancelled c" if "elections c e \<in> {Acquiring, Leading}"
  proof -
    have "running e c" using that by (auto simp: running_def)
    then have "e = current c" using inv unfolding election_inv_def by blast
    then show ?thesis using inv by (auto simp: election_inv_def)
  qed
  moreover have "elections c (current c) \<in> {Acquiring, Leading} \<or> elections c (current c) = Finished"
    using inv by (cases "elections c (current c)") (auto simp: election_inv_def)
  ultimately show ?thesis using inv unfolding election_inv_def by blast
qed

theorem one_election_never_stuck_witness:
  "elections (failing_run 3) 3 = Acquiring \<and> 3 \<notin> cancelled (failing_run 3)"
proof -
  have st: "elections (failing_run 3) 3 = Acquiring" using failing_run_state [of 3] by simp
  have "demo_reachable (failing_run 3)" by (rule failing_run_reachable) simp
  from one_election_never_stuck [OF this, of 3] st show ?thesis by simp
qed



text \<open>
  C25. The counters of a client with metrics agree with what happened: the restarts and the errors are as
  many as the failures reported to the tracker, and every error is of the type
  \<^verbatim>\<open>leadership_lost\<close>.
\<close>

theorem counters_count_failures:
  assumes "elector_reachable fl ovf host c" and "el_metrics c \<noteq> None"
  shows "GetRestartCount c = length (failure_times (history c)) \<and>
    map_of (GetErrorCounts c) = (if failure_times (history c) = [] then Map.empty
      else [''leadership_lost'' \<mapsto> length (failure_times (history c))])"
  using tracking_inv_reachable [OF assms(1)] assms(2)
  by (auto simp: tracking_inv_def GetRestartCount_def GetErrorCounts_def failure_count_def)

theorem counters_count_failures_witness: "GetRestartCount (failing_run 3) = 3"
proof -
  have st: "history (failing_run 3) = replicate 3 (Some 0)" "el_metrics (failing_run 3) \<noteq> None"
    using failing_run_state [of 3] by simp_all
  have "demo_reachable (failing_run 3)" by (rule failing_run_reachable) simp
  from counters_count_failures [OF this st(2)] show ?thesis unfolding st(1) by (simp add: numeral_eq_Suc)
qed

text \<open>
  Informers are never stopped: as many have been started as leaderships, the channels of all of them
  are open in every reachable state, also when the process no longer leads, so each of them goes on
  calling the node handlers.
\<close>

theorem informers_never_stop:
  assumes "elector_reachable fl ovf host c"
  shows "length (informers c) = count_list (history c) None \<and> closedCh c = {}"
  using leak_inv_reachable [OF assms] election_inv_reachable [OF assms]
  by (simp add: leak_inv_def election_inv_def)

theorem informers_never_stop_witness: "length (informers demo_flagged) = 1 \<and> closedCh demo_flagged = {}"
proof -
  have "history demo_flagged = [None]"
    by (simp add: demo_flagged_def do_lose_def do_acquire_def frame_simps demo_boot_state)
  with informers_never_stop [OF demo_flagged_reachable] show ?thesis by simp
qed

text \<open>
  C24. \<^verbatim>\<open>IsLeader\<close> is unreliable in both directions: there are reachable states in which the process leads
  and watches with the flag cleared (a report of an earlier leader came late), and in which no
  election runs with the flag set (\<^verbatim>\<open>OnStartedLeading\<close> ran after \<^verbatim>\<open>OnStoppedLeading\<close>).
\<close>

theorem leader_flag_unreliable:
  "(\<exists>c. demo_reachable c \<and> elections c 0 = Leading \<and> watches c 0 = WatchRunning 0 \<and> \<not> IsLeader c) \<and>
   (\<exists>c. demo_reachable c \<and> elections c 0 = Finished \<and> current c = 0 \<and> IsLeader c)"
proof (intro conjI exI)
  show "demo_reachable demo_unflagged" by (rule demo_unflagged_reachable)
  show "elections demo_unflagged 0 = Leading" "watches demo_unflagged 0 = WatchRunning 0" "\<not> IsLeader demo_unflagged"
    by (simp_all add: demo_unflagged_def demo_leading_def watch_synced_def frame_simps do_acquire_def IsLeader_def)
      (simp add: OnNewLeader_def Let_def frame_simps)
  show "demo_reachable demo_flagged" by (rule demo_flagged_reachable)
  show "elections demo_flagged 0 = Finished" "IsLeader demo_flagged"
    by (simp_all add: demo_flagged_def do_lose_def do_acquire_def frame_simps IsLeader_def)
  show "current demo_flagged = 0"
    by (simp add: demo_flagged_def do_lose_def do_acquire_def frame_simps)
      (simp add: demo_boot_def Start_def RegisterNodeHandlers_def new_elector_def run_election_def)
qed





end
