(* ===== verification/Program.thy ===== *)
theory Program
  imports EntrySafety NodeMirrorProps ElectionProps
begin

text \<open>
  The whole program: \<^verbatim>\<open>main\<close> up to the call of \<^verbatim>\<open>Start\<close>, and the runs of its goroutines from there, in which
  the leader election (\<open>LeaderElection\<close>) and the handling of node events (\<open>NodeWatcher\<close>) meet. A
  callback of an informer is one step, so these are the runs in which callbacks of different informers
  do not overlap; overlapping updates are in \<open>ConcurrentUpdates\<close>. The calls on the shared \<^verbatim>\<open>Metrics\<close>
  value are kept in two logs, one by each part; no vector is used by both.
\<close>

text \<open>The flags of the command line.\<close>

record flags =
  flag_kubeconfig :: string
  flag_config :: string
  flag_logLevel :: string

text \<open>What the program finds outside: the system, zap, the cluster, the Linode service and the runtime.\<close>

record ('w, 'k) outside =
  out_os :: os_env
  out_build :: "zap_level \<Rightarrow> go_error option"
  out_setup :: "'k kube_setup"
  out_service :: "'w mysql_service"
  out_runtime :: "'w linode_env"
  out_kube :: "'w kube_env"

record 'w program =
  prog_cfg :: config
  prog_linode :: "'w linode_env"
  prog_el :: elector
  prog_app :: "'w app"
  prog_handled :: "notification list"

text \<open>
  \<open>prog_handled\<close> is a ghost: the notifications handled so far. \<open>Inl\<close> is the message with which the
  process exits; the error of \<^verbatim>\<open>InitializeCache\<close> is only logged.
\<close>

definition main_start :: "('w, 'k) outside \<Rightarrow> flags \<Rightarrow> int \<Rightarrow> 'w \<Rightarrow> 'w program result" where
  "main_start out fl t w =
     (case main_config (out_os out) (out_build out) (flag_config fl) (flag_logLevel fl) of
        Inl msg \<Rightarrow> Inl msg
      | Inr (cfg, level) \<Rightarrow>
          (case NewClient (out_setup out) (flag_kubeconfig fl) (Some []) t of
             Inl err \<Rightarrow> Inl ''Failed to create Kubernetes client''
           | Inr k8sClient \<Rightarrow>
               (case NewLinodeClient (out_service out) (out_runtime out) [] w of
                  (api, linodeClient) \<Rightarrow>
                    (let k8sClient' = RegisterNodeHandlers True True k8sClient;
                         linodeClient' = snd (InitializeCache api cfg linodeClient)
                     in Inr \<lparr>prog_cfg = cfg, prog_linode = api, prog_el = Start k8sClient',
                             prog_app = \<lparr>app_client = linodeClient', app_spawned = []\<rparr>, prog_handled = []\<rparr>))))"

section \<open>The runs\<close>

text \<open>
  The goroutines of the election proceed; a running informer, of this leadership or an earlier one,
  calls back; a goroutine of \<^verbatim>\<open>updateNodeCountMetrics\<close> runs.
\<close>

inductive program_step :: "(real \<Rightarrow> real) \<Rightarrow> (real \<Rightarrow> int) \<Rightarrow> 'w kube_env \<Rightarrow> 'w program \<Rightarrow> 'w program \<Rightarrow> bool"
  for fl ovf kube where
  election: "elector_step fl ovf (getHostname kube) (prog_el p) el \<Longrightarrow> program_step fl ovf kube p (p\<lparr>prog_el := el\<rparr>)"
| notified: "ch \<in> set (informers (prog_el p)) \<Longrightarrow> ch \<notin> closedCh (prog_el p) \<Longrightarrow>
    notify (prog_cfg p) (add_handler (prog_linode p) kube (prog_cfg p))
      (delete_handler (prog_linode p) kube (prog_cfg p)) ev (prog_app p) = Returns a \<Longrightarrow>
    program_step fl ovf kube p (p\<lparr>prog_app := a, prog_handled := prog_handled p @ [ev]\<rparr>)"
| counted: "program_step fl ovf kube p (p\<lparr>prog_app := run_spawned kube (prog_cfg p) i (prog_app p)\<rparr>)"

inductive program_reachable ::
  "(real \<Rightarrow> real) \<Rightarrow> (real \<Rightarrow> int) \<Rightarrow> ('w, 'k) outside \<Rightarrow> flags \<Rightarrow> 'w \<Rightarrow> 'w program \<Rightarrow> bool"
  for fl ovf out flg w where
  started: "main_start out flg t w = Inr p \<Longrightarrow> program_reachable fl ovf out flg w p"
| stepped: "program_reachable fl ovf out flg w p \<Longrightarrow> phase (prog_el p) \<noteq> Exited \<Longrightarrow>
    program_step fl ovf (out_kube out) p p' \<Longrightarrow> program_reachable fl ovf out flg w p'"

section \<open>The start\<close>

lemma NewClient_new: "NewClient k path m t = Inr el \<Longrightarrow> el = new_elector m t"
  by (auto simp: NewClient_def split: sum.splits option.splits if_splits)

lemma main_start_state:
  assumes "main_start out flg t w = Inr p"
  shows "prog_linode p = service_env (out_service out) (out_runtime out)"
    and "prog_el p = Start (RegisterNodeHandlers True True (new_elector (Some []) t))"
    and "prog_app p = \<lparr>app_client = snd (InitializeCache (prog_linode p) (prog_cfg p)
      (NewClientWithAPI [] w)), app_spawned = []\<rparr>"
    and "prog_handled p = []"
    and "\<exists>level. main_config (out_os out) (out_build out) (flag_config flg) (flag_logLevel flg) = Inr (prog_cfg p, level)"
  using assms NewClient_new [of "out_setup out" "flag_kubeconfig flg" "Some []" t]
  by (auto simp: main_start_def NewLinodeClient_def NewClientWithAPI_def Let_def split: sum.splits)

lemma main_config_Load:
  assumes "main_config os build file lvl = Inr (cfg, level)"
  shows "\<exists>cfg0. Load os file = Inr cfg0 \<and> cfg = (if lvl = [] then cfg0 else cfg0\<lparr>LogLevel := to_lower lvl\<rparr>)"
  using assms by (auto simp: main_config_def Let_def split: sum.splits if_splits)

section \<open>Invariants\<close>

lemma program_constants:
  assumes "program_step fl ovf kube p p'"
  shows "prog_cfg p' = prog_cfg p \<and> prog_linode p' = prog_linode p"
  using assms by cases auto

lemma program_linode: "program_reachable fl ovf out flg w p \<Longrightarrow> prog_linode p = service_env (out_service out) (out_runtime out)"
proof (induction rule: program_reachable.induct)
  case (started t p)
  then show ?case by (rule main_start_state(1))
next
  case (stepped p p')
  then show ?case using program_constants by metis
qed

text \<open>The election part of a run of the program is a run of the election.\<close>

lemma program_election:
  "program_reachable fl ovf out flg w p \<Longrightarrow> elector_reachable fl ovf (getHostname (out_kube out)) (prog_el p)"
proof (induction rule: program_reachable.induct)
  case (started t p)
  then show ?case by (simp add: main_start_state(2) elector_reachable.boot)
next
  case (stepped p p')
  from stepped(3) show ?case
  proof cases
    case (election el)
    then show ?thesis using elector_reachable.run [OF stepped.IH stepped(2)] by simp
  qed (use stepped.IH in simp_all)
qed

text \<open>Only a process that has led handles notifications.\<close>

lemma informers_grow: "elector_step fl ovf host c c' \<Longrightarrow> set (informers c) \<subseteq> set (informers c')"
  by (cases rule: elector_step.cases)
    (auto simp: frame_simps watch_synced_def watch_finished_def watch_sync_failed_def try_send_def)

lemma handled_needs_informer:
  "program_reachable fl ovf out flg w p \<Longrightarrow> prog_handled p \<noteq> [] \<Longrightarrow> informers (prog_el p) \<noteq> []"
proof (induction rule: program_reachable.induct)
  case (started t p)
  then show ?case by (simp add: main_start_state(4))
next
  case (stepped p p')
  from stepped(3) show ?case
  proof cases
    case (election el)
    then show ?thesis using informers_grow [OF election(2)] stepped by auto
  qed (use stepped in auto)
qed

text \<open>What is documented of the outside: nothing but the updates of databases changes their lists (\<open>S\<close>).\<close>

definition outside_ok :: "('w, 'k) outside \<Rightarrow> ('w \<Rightarrow> int \<rightharpoonup> string list) \<Rightarrow> bool" where
  "outside_ok out S \<longleftrightarrow>
     service_laws (out_service out) S \<and> runtime_frame (out_runtime out) S \<and> kube_quiet (out_kube out) S \<and>
     range_order_ok (ip_order (out_runtime out)) \<and> range_order_ok (db_order (out_runtime out))"

abbreviation canonical_ids :: "config \<Rightarrow> bool" where
  "canonical_ids cfg \<equiv> \<forall>d \<in> configured_ids cfg. canonical d"

abbreviation numbered :: "('w, 'k) outside \<Rightarrow> 'w linode_env" where
  "numbered out \<equiv> canonical_env (out_service out) (out_runtime out)"

lemma outside_numbered:
  assumes "outside_ok out S"
  shows "env_ok (numbered out) (by_id S)" and "kube_quiet (out_kube out) (by_id S)"
    and "range_order_ok (db_order (numbered out))"
proof -
  show "env_ok (numbered out) (by_id S)"
    using assms by (intro canonical_env_ok) (simp_all add: outside_ok_def)
  show "kube_quiet (out_kube out) (by_id S)"
    using assms by_id_cong [of S] unfolding outside_ok_def kube_quiet_def by metis
  show "range_order_ok (db_order (numbered out))"
    using assms by (simp add: outside_ok_def canonical_env_def service_env_def)
qed

text \<open>The start fills the cache and changes no list.\<close>

lemma started_lists:
  assumes ok: "outside_ok out S" and start: "main_start out flg t w = Inr p" and ids: "canonical_ids (prog_cfg p)"
  shows "by_id S (world (app_client (prog_app p))) = by_id S w" and "cache_ok (by_id S) (app_client (prog_app p))"
proof -
  obtain r c' where init: "InitializeCache (numbered out) (prog_cfg p) (NewClientWithAPI [] w) = (r, c')" by fastforce
  have "range_order_ok (db_order (out_runtime out))" using ok by (simp add: outside_ok_def)
  from InitializeCache_canonical [OF ids this, of "out_service out" "NewClientWithAPI [] w"]
  have app: "app_client (prog_app p) = c'"
    unfolding main_start_state(3) [OF start] main_start_state(1) [OF start] by (simp add: init)
  have "api_laws (numbered out) (by_id S)" using outside_numbered(1) [OF ok] by (simp add: env_ok_def)
  note spec = InitializeCache_spec [OF this outside_numbered(3) [OF ok] init]
  show "by_id S (world (app_client (prog_app p))) = by_id S w"
    using spec(1) by (simp add: app NewClientWithAPI_def)
  show "cache_ok (by_id S) (app_client (prog_app p))"
    using spec(2) by (simp add: app cache_ok_def NewClientWithAPI_def)
qed

lemma notified_numbered:
  assumes "program_reachable fl ovf out flg w p" and "canonical_ids (prog_cfg p)"
  shows "add_handler (prog_linode p) kube (prog_cfg p) = add_handler (numbered out) kube (prog_cfg p)"
    and "delete_handler (prog_linode p) kube (prog_cfg p) = delete_handler (numbered out) kube (prog_cfg p)"
  using handlers_canonical [OF assms(2), of "out_service out" "out_runtime out" kube]
  by (simp_all add: fun_eq_iff add_handler_def delete_handler_def program_linode [OF assms(1)])

lemma program_kept:
  assumes ok: "outside_ok out S"
  shows "program_reachable fl ovf out flg w p \<Longrightarrow> canonical_ids (prog_cfg p) \<Longrightarrow>
    \<forall>ev \<in> set (prog_handled p). \<forall>nd \<in> notified_nodes ev. x \<notin> node_entries (prog_cfg p) nd \<Longrightarrow>
    entry_kept (by_id S) x (\<lambda>d. map_option (\<lambda>ys. x \<in> entries ys) (by_id S w d)) (app_client (prog_app p))"
proof (induction rule: program_reachable.induct)
  case (started t p)
  from entry_kept_start [OF started_lists(2) [OF ok started(1,2)], of x] show ?case
    unfolding started_lists(1) [OF ok started(1,2)] .
next
  case (stepped p p')
  note numbered = outside_numbered(1,2) [OF ok]
  have cfg: "prog_cfg p' = prog_cfg p" using program_constants [OF stepped(3)] by simp
  have seen: "set (prog_handled p) \<subseteq> set (prog_handled p')" using stepped(3) by cases auto
  have kept: "entry_kept (by_id S) x (\<lambda>d. map_option (\<lambda>ys. x \<in> entries ys) (by_id S w d)) (app_client (prog_app p))"
    using stepped.IH stepped.prems seen cfg by auto
  from stepped(3) show ?case
  proof cases
    case (notified ch ev a)
    have ids: "canonical_ids (prog_cfg p)" using stepped.prems(1) cfg by simp
    have "\<forall>nd \<in> notified_nodes ev. x \<notin> node_entries (prog_cfg p) nd"
      using stepped.prems(2) notified(1) by auto
    from notify_kept [OF numbered kept this] notified show ?thesis
      by (simp add: notified_numbered [OF stepped(1) ids])
  next
    case (counted i)
    then show ?thesis using run_spawned_kept [OF numbered(2) kept] by simp
  qed (use kept in simp)
qed

lemma nothing_handled:
  assumes ok: "outside_ok out S"
  shows "program_reachable fl ovf out flg w p \<Longrightarrow> canonical_ids (prog_cfg p) \<Longrightarrow> prog_handled p = [] \<Longrightarrow>
    by_id S (world (app_client (prog_app p))) = by_id S w"
proof (induction rule: program_reachable.induct)
  case (started t p)
  then show ?case using started_lists(1) [OF ok] by blast
next
  case (stepped p p')
  have cfg: "prog_cfg p' = prog_cfg p" using program_constants [OF stepped(3)] by simp
  have quiet: "by_id S w2 = by_id S w1" if "GetNodesByNodepool (out_kube out) cfg np w1 = (r, w2)" for cfg np w1 r w2
    using that outside_numbered(2) [OF ok] unfolding GetNodesByNodepool_def kube_quiet_def
    by (auto split: prod.splits sum.splits)
  from stepped(3) show ?case
  proof cases
    case (counted i)
    then show ?thesis using stepped.IH stepped.prems quiet
      by (auto simp: run_spawned_def node_count_goroutine_def split: prod.splits sum.splits)
  qed (use stepped.IH stepped.prems cfg in auto)
qed

section \<open>Few failures\<close>

text \<open>
  Failures that pass (\<open>trouble\<close> counts those that are left) and change nothing; no other call adds to them.
\<close>

definition service_live :: "'w mysql_service \<Rightarrow> ('w \<Rightarrow> int \<rightharpoonup> string list) \<Rightarrow> ('w \<Rightarrow> nat) \<Rightarrow> bool" where
  "service_live svc S trouble \<longleftrightarrow>
     (\<forall>n w r w'. GetMySQLDatabase svc n w = (r, w') \<longrightarrow> trouble w' \<le> trouble w \<and>
        (\<forall>e. r = Inl e \<longrightarrow> S w n \<noteq> None \<longrightarrow> trouble w' < trouble w)) \<and>
     (\<forall>n xs w r w'. UpdateMySQLDatabase svc n xs w = (r, w') \<longrightarrow> trouble w' \<le> trouble w \<and>
        (r \<noteq> None \<longrightarrow> S w' = S w \<and> (S w n \<noteq> None \<longrightarrow> trouble w' < trouble w)))"

definition runtime_live :: "'w linode_env \<Rightarrow> ('w \<Rightarrow> nat) \<Rightarrow> bool" where
  "runtime_live env trouble \<longleftrightarrow>
     (\<forall>w r w'. limiter_wait env w = (r, w') \<longrightarrow> r = None \<and> trouble w' \<le> trouble w) \<and>
     (\<forall>w t w'. clock_now env w = (t, w') \<longrightarrow> trouble w' \<le> trouble w) \<and>
     (\<forall>w. ctx_err (runtime env) w = None) \<and>
     (\<forall>w x w'. rand_float (runtime env) w = (x, w') \<longrightarrow> trouble w' \<le> trouble w) \<and>
     (\<forall>d w r w'. wait_backoff (runtime env) d w = (r, w') \<longrightarrow> r = None \<and> trouble w' \<le> trouble w)"

definition outside_live :: "('w, 'k) outside \<Rightarrow> ('w \<Rightarrow> int \<rightharpoonup> string list) \<Rightarrow> ('w \<Rightarrow> nat) \<Rightarrow> bool" where
  "outside_live out S trouble \<longleftrightarrow>
     service_live (out_service out) S trouble \<and> runtime_live (out_runtime out) trouble \<and>
     (\<forall>w. range_order_ok (ipv4_order (out_kube out) w) \<and> range_order_ok (ipv6_order (out_kube out) w)) \<and>
     (\<forall>ns ev w r w'. create_event (out_kube out) ns ev w = (r, w') \<longrightarrow> trouble w' \<le> trouble w) \<and>
     (\<forall>sel w r w'. list_nodes_labelled (out_kube out) sel w = (r, w') \<longrightarrow> trouble w' \<le> trouble w)"

lemma live_numbered:
  assumes ok: "outside_ok out S" and live: "outside_live out S trouble"
  shows "atomic_failures (numbered out) (by_id S)" and "transient (numbered out) (by_id S) trouble"
    and "kube_frame (out_kube out) (by_id S) trouble"
proof -
  have svc: "service_live (out_service out) S trouble" and run: "runtime_live (out_runtime out) trouble"
    using live by (simp_all add: outside_live_def)
  have get: "trouble w' \<le> trouble w \<and> (\<forall>e. r = Inl e \<longrightarrow> by_id S w db \<noteq> None \<longrightarrow> trouble w' < trouble w)"
    if "api_get (numbered out) db w = (r, w')" for db w r w'
  proof (cases "canonical db")
    case True
    then obtain n where n: "atoi db = Inr n" by (auto elim: canonicalE)
    obtain q w1 where g: "GetMySQLDatabase (out_service out) n w = (q, w1)" by fastforce
    have "w' = w1" "isl r \<longleftrightarrow> isl q"
      using that True n g by (auto simp: canonical_env_def adapter_GetDatabaseAllowList_def split: sum.splits)
    moreover have "trouble w1 \<le> trouble w \<and> (\<forall>e. q = Inl e \<longrightarrow> S w n \<noteq> None \<longrightarrow> trouble w1 < trouble w)"
      using svc g unfolding service_live_def by blast
    ultimately show ?thesis using True n by (auto simp: by_id_def isl_def)
  qed (use that in \<open>simp_all add: canonical_env_def by_id_def\<close>)
  have put: "trouble w' \<le> trouble w \<and>
      (r \<noteq> None \<longrightarrow> by_id S w' = by_id S w \<and> (by_id S w db \<noteq> None \<longrightarrow> trouble w' < trouble w))"
    if "api_update (numbered out) db xs w = (r, w')" for db xs w r w'
  proof (cases "canonical db")
    case True
    then obtain n where n: "atoi db = Inr n" by (auto elim: canonicalE)
    obtain q w1 where u: "UpdateMySQLDatabase (out_service out) n xs w = (q, w1)" by fastforce
    have "w' = w1" "r = None \<longleftrightarrow> q = None"
      using that True n u by (auto simp: canonical_env_def adapter_UpdateDatabaseAllowList_def split: option.splits)
    moreover have "trouble w1 \<le> trouble w \<and> (q \<noteq> None \<longrightarrow> S w1 = S w \<and> (S w n \<noteq> None \<longrightarrow> trouble w1 < trouble w))"
      using svc [unfolded service_live_def, THEN conjunct2] u by simp
    ultimately show ?thesis using True n by_id_cong [of S w w1] by (auto simp: by_id_def)
  qed (use that in \<open>simp_all add: canonical_env_def by_id_def\<close>)
  show "atomic_failures (numbered out) (by_id S)" using put unfolding atomic_failures_def by blast
  show "transient (numbered out) (by_id S) trouble"
  proof -
    note runs = run [unfolded runtime_live_def, THEN conjunct1] run [unfolded runtime_live_def, THEN conjunct2]
    have "\<forall>db w r w'. api_get (numbered out) db w = (r, w') \<longrightarrow> trouble w' \<le> trouble w \<and>
        (\<forall>e. r = Inl e \<longrightarrow> by_id S w db \<noteq> None \<longrightarrow> trouble w' < trouble w)"
      by (intro allI impI get)
    moreover have "\<forall>db xs w r w'. api_update (numbered out) db xs w = (r, w') \<longrightarrow> trouble w' \<le> trouble w \<and>
        (r \<noteq> None \<longrightarrow> by_id S w db \<noteq> None \<longrightarrow> trouble w' < trouble w)"
      by (blast dest: put)
    ultimately show ?thesis unfolding transient_def service_env_sel by (intro conjI runs) assumption+
  qed
  show "kube_frame (out_kube out) (by_id S) trouble"
    using live outside_numbered(2) [OF ok] unfolding kube_frame_def outside_live_def kube_quiet_def by blast
qed

definition listed :: "('w \<Rightarrow> int \<rightharpoonup> string list) \<Rightarrow> 'w \<Rightarrow> admitted" where
  "listed S w = (\<lambda>d. map_option entries (by_id S w d))"

lemma InitializeCache_trouble:
  assumes tr: "transient env C trouble"
  shows "trouble (world (snd (InitializeCache env cfg c))) \<le> trouble (world c)"
proof -
  have fetch: "trouble (world (snd (fetchAndCacheAllowList env db nm s))) \<le> trouble (world s)" for db nm s
  proof -
    obtain l w1 where l: "limiter_wait env (world s) = (l, w1)" by fastforce
    obtain g w2 where g: "api_get env db w1 = (g, w2)" by fastforce
    obtain t w3 where t: "clock_now env w2 = (t, w3)" by fastforce
    have "l = None" "trouble w1 \<le> trouble (world s)" "trouble w2 \<le> trouble w1" "trouble w3 \<le> trouble w2"
      using transientD(5) [OF tr l] transientD(1) [OF tr g] transientD(6) [OF tr t] by simp_all
    then show ?thesis by (auto simp: fetchAndCacheAllowList_def l g t split: sum.splits)
  qed
  show ?thesis
    unfolding InitializeCache_def Let_def
    by (rule loop_last_err_inv [where P = "\<lambda>s. trouble (world s) \<le> trouble (world c)"])
      (auto intro: order_trans [OF fetch])
qed

lemma notify_returns_about: "notify cfg addH delH ev s = Returns s' \<Longrightarrow> about_nodes ev"
proof (cases ev)
  case (Updated oldObj newObj)
  then show "notify cfg addH delH ev s = Returns s' \<Longrightarrow> about_nodes ev"
    by (cases oldObj; cases newObj) (simp_all add: UpdateFunc_def)
qed (auto simp: AddFunc_def DeleteFunc_def split: informer_obj.splits)

lemma started_inv:
  assumes ok: "outside_ok out S" and live: "outside_live out S trouble" and start: "main_start out flg t w = Inr p"
    and ids: "canonical_ids (prog_cfg p)" and few: "int (trouble w) < MaxAttempts (Retry (prog_cfg p))"
    and exist: "\<forall>d \<in> configured_ids (prog_cfg p). by_id S w d \<noteq> None"
  shows "client_inv (numbered out) (out_kube out) (prog_cfg p) (by_id S) trouble (app_client (prog_app p))"
    and "admitted_by (by_id S) (prog_app p) = listed S w"
proof -
  note lists = started_lists [OF ok start ids]
  have ord: "range_order_ok (db_order (out_runtime out))" using ok by (simp add: outside_ok_def)
  have "trouble (world (snd (InitializeCache (numbered out) (prog_cfg p) (NewClientWithAPI [] w)))) \<le> trouble w"
    using InitializeCache_trouble [of "numbered out" "by_id S" trouble "prog_cfg p" "NewClientWithAPI [] w"]
      live_numbered(2) [OF ok live]
    by (simp add: NewClientWithAPI_def)
  then have "trouble (world (app_client (prog_app p))) \<le> trouble w"
    unfolding main_start_state(3) [OF start] main_start_state(1) [OF start]
    by (simp add: InitializeCache_canonical [OF ids ord])
  then show "client_inv (numbered out) (out_kube out) (prog_cfg p) (by_id S) trouble (app_client (prog_app p))"
    using outside_numbered(1) [OF ok] live_numbered [OF ok live] lists few exist pool_dbs_configured
    unfolding client_inv_def by fastforce
  show "admitted_by (by_id S) (prog_app p) = listed S w"
    using lists(1) by (simp add: admitted_by_def listed_def)
qed

lemma run_spawned_inv:
  assumes ok: "outside_ok out S" and live: "outside_live out S trouble"
    and inv: "client_inv lin kube cfg (by_id S) trouble (app_client a)"
  shows "client_inv lin kube cfg (by_id S) trouble (app_client (run_spawned (out_kube out) cfg' i a)) \<and>
    admitted_by (by_id S) (run_spawned (out_kube out) cfg' i a) = admitted_by (by_id S) a"
proof -
  have quiet: "by_id S w2 = by_id S w1 \<and> trouble w2 \<le> trouble w1"
    if "GetNodesByNodepool (out_kube out) cfg' np w1 = (r, w2)" for np w1 r w2
    using that outside_numbered(2) [OF ok] live unfolding GetNodesByNodepool_def kube_quiet_def outside_live_def
    by (auto split: prod.splits sum.splits)
  show ?thesis
  proof (cases "i < length (app_spawned a)")
    case True
    obtain r w where g: "GetNodesByNodepool (out_kube out) cfg' (app_spawned a ! i) (world (app_client a)) = (r, w)" by fastforce
    have "world (app_client (run_spawned (out_kube out) cfg' i a)) = w"
      and "allowListCache (app_client (run_spawned (out_kube out) cfg' i a)) = allowListCache (app_client a)"
      using True g by (auto simp: run_spawned_def node_count_goroutine_def with_metrics_def split: sum.splits)
    then show ?thesis
      using client_inv_frame [OF inv, of w] quiet [OF g] by (simp add: admitted_by_def)
  qed (simp add: run_spawned_def inv)
qed

text \<open>The lists are what the notifications handled so far make of the lists at the start.\<close>

lemma program_mirror:
  assumes ok: "outside_ok out S" and live: "outside_live out S trouble"
  shows "program_reachable fl ovf out flg w p \<Longrightarrow> canonical_ids (prog_cfg p) \<Longrightarrow>
    int (trouble w) < MaxAttempts (Retry (prog_cfg p)) \<Longrightarrow> \<forall>d \<in> configured_ids (prog_cfg p). by_id S w d \<noteq> None \<Longrightarrow>
    client_inv (numbered out) (out_kube out) (prog_cfg p) (by_id S) trouble (app_client (prog_app p)) \<and>
    admitted_by (by_id S) (prog_app p) =
      fold (abs_notify (prog_cfg p) (admit (prog_cfg p)) (revoke (prog_cfg p))) (prog_handled p) (listed S w)"
proof (induction rule: program_reachable.induct)
  case (started t p)
  then show ?case using started_inv [OF ok live started(1)] by (simp add: main_start_state(4))
next
  case (stepped p p')
  have cfg: "prog_cfg p' = prog_cfg p" using program_constants [OF stepped(3)] by simp
  note IH = stepped.IH [OF stepped.prems [unfolded cfg]]
  from stepped(3) show ?case
  proof cases
    case (notified ch ev a)
    have ids: "canonical_ids (prog_cfg p)" using stepped.prems(1) cfg by simp
    have run: "notify (prog_cfg p) (add_handler (numbered out) (out_kube out) (prog_cfg p))
        (delete_handler (numbered out) (out_kube out) (prog_cfg p)) ev (prog_app p) = Returns a"
      using notified(4) by (simp add: notified_numbered [OF stepped(1) ids])
    from mirror.notify_refines [OF conjunct1 [OF IH] notify_returns_about [OF run]] run IH notified(1)
    show ?thesis by auto
  next
    case (counted i)
    then show ?thesis using run_spawned_inv [OF ok live conjunct1 [OF IH]] IH by simp
  qed (use IH in simp)
qed

end
