(* ===== verification/ProgramProps.thy ===== *)
theory ProgramProps
  imports Program
begin

text \<open>The properties of the whole program, with a concrete outside to apply them to.\<close>

section \<open>A concrete outside\<close>

definition silent_kube :: "'w kube_env" where
  "silent_kube =
     \<lparr>list_nodes = (\<lambda>w. (Inl ''forbidden'', w)), list_nodes_labelled = (\<lambda>_ w. (Inl ''forbidden'', w)),
      create_event = (\<lambda>ns ev w. (Some ''forbidden'', w)), os_hostname = Inr ''host'',
      ipv4_order = (\<lambda>_. sorted_list_of_set), ipv6_order = (\<lambda>_. sorted_list_of_set),
      pool_order = (\<lambda>_. sorted_list_of_set)\<rparr>"

definition demo_outside :: "(int \<rightharpoonup> string list, unit) outside" where
  "demo_outside =
     \<lparr>out_os = demo_os, out_build = (\<lambda>_. None),
      out_setup = \<lparr>InClusterConfig = Inr (), BuildConfigFromFlags = (\<lambda>_. Inl ''no such file''), NewForConfig = (\<lambda>_. None)\<rparr>,
      out_service = demo_service, out_runtime = demo_numbers, out_kube = silent_kube\<rparr>"

definition demo_flags :: flags where
  "demo_flags = \<lparr>flag_kubeconfig = [], flag_config = ''cfg'', flag_logLevel = []\<rparr>"

definition demo_lists :: "int \<rightharpoonup> string list" where
  "demo_lists = [1 \<mapsto> [''10.0.0.0/8'', ''192.0.2.9/32'']]"

definition demo_program :: "(int \<rightharpoonup> string list) program" where
  "demo_program =
     \<lparr>prog_cfg = demo_config, prog_linode = service_env demo_service demo_numbers, prog_el = demo_boot,
      prog_app = \<lparr>app_client = snd (InitializeCache (service_env demo_service demo_numbers) demo_config
        (NewClientWithAPI [] demo_lists)), app_spawned = []\<rparr>, prog_handled = []\<rparr>"

lemma demo_outside_ok: "outside_ok demo_outside (\<lambda>w. w)"
  by (simp add: outside_ok_def demo_outside_def demo_service_laws demo_numbers_frame kube_quiet_def silent_kube_def
      range_order_sorted_list_of_set) (simp add: demo_numbers_def range_order_sorted_list_of_set)

lemma demo_outside_live: "outside_live demo_outside (\<lambda>w. w) (\<lambda>_. 0)"
proof -
  have "service_live (out_service demo_outside) (\<lambda>w. w) (\<lambda>_. 0)"
    by (auto simp: service_live_def demo_outside_def demo_service_def split: option.splits)
  moreover have "runtime_live (out_runtime demo_outside) (\<lambda>_. 0)"
    by (simp add: runtime_live_def demo_outside_def demo_numbers_def demo_runtime_def)
  ultimately show ?thesis
    by (simp add: outside_live_def) (simp add: demo_outside_def silent_kube_def range_order_sorted_list_of_set)
qed

lemma demo_main_start: "main_start demo_outside demo_flags 0 demo_lists = Inr demo_program"
proof -
  have "\<exists>level. main_config demo_os (\<lambda>_. None) ''cfg'' [] = Inr (demo_config, level)"
    by (simp add: main_config_def initLogger_def demo_Load Let_def)
  then show ?thesis
    by (auto simp: main_start_def demo_outside_def demo_flags_def demo_program_def demo_boot_def NewClient_def
        NewLinodeClient_def NewClientWithAPI_def Let_def)
qed

abbreviation demo_run :: "(int \<rightharpoonup> string list) program \<Rightarrow> bool" where
  "demo_run \<equiv> program_reachable (\<lambda>x. x) (\<lambda>_. 0) demo_outside demo_flags demo_lists"

lemma demo_started: "demo_run demo_program"
  by (rule started [OF demo_main_start])

lemma demo_canonical: "canonical_ids (prog_cfg demo_program)"
proof -
  have "configured_ids demo_config = {''1''}"
    by (simp add: configured_ids_def demo_config_def demo_file_config_def DefaultConfig_def)
  moreover have "canonical ''1''" by code_simp
  ultimately show ?thesis by (simp add: demo_program_def)
qed

text \<open>A process that has led and has lost the lease, and a notification of an informer it started.\<close>

definition demoted :: elector where
  "demoted = do_lose 0 demo_leading"

definition late_delete :: notification where
  "late_delete = Deleted (NodeObj (demo_node ''n'' ''prod'' [''192.0.2.9'']))"

lemma demo_election:
  assumes "demo_run (demo_program\<lparr>prog_el := el\<rparr>)" and "phase el \<noteq> Exited"
    and "elector_step (\<lambda>x. x) (\<lambda>_. 0) ''host'' el el'"
  shows "demo_run (demo_program\<lparr>prog_el := el'\<rparr>)"
proof -
  have "getHostname (out_kube demo_outside) = ''host''" by (simp add: demo_outside_def silent_kube_def getHostname_def)
  then have st: "program_step (\<lambda>x. x) (\<lambda>_. 0) (out_kube demo_outside) (demo_program\<lparr>prog_el := el\<rparr>)
      ((demo_program\<lparr>prog_el := el\<rparr>)\<lparr>prog_el := el'\<rparr>)"
    using assms(3) by (intro program_step.election) simp
  show ?thesis using stepped [OF assms(1) _ st] assms(2) by simp
qed

lemma demoted_reachable: "demo_run (demo_program\<lparr>prog_el := demoted\<rparr>)"
proof -
  have boot: "demo_run (demo_program\<lparr>prog_el := demo_boot\<rparr>)"
    using demo_started by (simp add: demo_program_def)
  note simps = frame_simps do_acquire_def watch_synced_def demo_boot_state
  have "demo_run (demo_program\<lparr>prog_el := do_acquire 0 demo_boot\<rparr>)"
    unfolding do_acquire_def by (rule demo_election [OF boot _ acquired]) (simp_all add: demo_boot_state)
  then have "demo_run (demo_program\<lparr>prog_el := OnStartedLeading 0 (do_acquire 0 demo_boot)\<rparr>)"
    by (rule demo_election [OF _ _ started_leading]) (simp_all add: simps)
  then have "demo_run (demo_program\<lparr>prog_el := demo_leading\<rparr>)"
    unfolding demo_leading_def by (rule demo_election [OF _ _ synced]) (simp_all add: simps)
  then show ?thesis
    unfolding demoted_def do_lose_def by (rule demo_election [OF _ _ lost_lease]) (simp_all add: simps demo_leading_def)
qed

lemma demoted_state:
  "0 \<in> set (informers demoted)" "0 \<notin> closedCh demoted" "\<not> IsLeader demoted" "\<forall>e. elections demoted e \<noteq> Leading"
  "phase demoted = Monitoring"
proof -
  note simps = demoted_def do_lose_def demo_leading_def frame_simps do_acquire_def watch_synced_def demo_boot_state
  show "0 \<in> set (informers demoted)" "0 \<notin> closedCh demoted" "\<not> IsLeader demoted" "\<forall>e. elections demoted e \<noteq> Leading"
    "phase demoted = Monitoring"
    by (simp_all add: simps IsLeader_def)
      (simp_all add: demo_boot_def Start_def RegisterNodeHandlers_def new_elector_def run_election_def)
qed

definition late_add :: notification where
  "late_add = Added (NodeObj (demo_node ''n'' ''prod'' [''192.0.2.7'']))"

abbreviation demo_notify :: "notification \<Rightarrow> (int \<rightharpoonup> string list) app outcome" where
  "demo_notify ev \<equiv> notify demo_config (add_handler (service_env demo_service demo_numbers) silent_kube demo_config)
     (delete_handler (service_env demo_service demo_numbers) silent_kube demo_config) ev (prog_app demo_program)"

lemma demoted_handles:
  assumes "demo_notify ev = Returns a"
  shows "program_step (\<lambda>x. x) (\<lambda>_. 0) (out_kube demo_outside) (demo_program\<lparr>prog_el := demoted\<rparr>)
      (demo_program\<lparr>prog_el := demoted, prog_app := a, prog_handled := [ev]\<rparr>)" (is "?step")
    and "demo_run (demo_program\<lparr>prog_el := demoted, prog_app := a, prog_handled := [ev]\<rparr>)"
proof -
  let ?p = "demo_program\<lparr>prog_el := demoted\<rparr>"
  have "program_step (\<lambda>x. x) (\<lambda>_. 0) silent_kube ?p (?p\<lparr>prog_app := a, prog_handled := prog_handled ?p @ [ev]\<rparr>)"
    by (rule notified [of 0]) (use demoted_state assms in \<open>simp_all add: demo_program_def\<close>)
  moreover have "out_kube demo_outside = silent_kube" by (simp add: demo_outside_def)
  ultimately show step: ?step by (simp add: demo_program_def)
  show "demo_run (demo_program\<lparr>prog_el := demoted, prog_app := a, prog_handled := [ev]\<rparr>)"
    by (rule stepped [OF demoted_reachable _ step]) (simp add: demoted_state)
qed

lemma late_delete_handled: "\<exists>a. demo_notify late_delete = Returns a \<and> world (app_client a) 1 = Some [''10.0.0.0/8'']"
proof -
  have "(case demo_notify late_delete of Returns a \<Rightarrow> world (app_client a) 1 | Panics msg \<Rightarrow> None) = Some [''10.0.0.0/8'']"
    by code_simp
  then show ?thesis by (auto split: outcome.splits)
qed

lemma late_add_handled: "\<exists>a. demo_notify late_add = Returns a"
  by (cases "isNodeInWatchedNodepool demo_config (demo_node ''n'' ''prod'' [''192.0.2.7''])")
    (simp_all add: late_add_def AddFunc_def)

lemma demo_entries:
  "node_entries demo_config (demo_node name pool ips) = normalizeIP ` {ip \<in> set ips. CHR '':'' \<notin> set ip}"
proof -
  have "EnableIPv4 demo_config" "\<not> EnableIPv6 demo_config"
    by (simp_all add: demo_config_def demo_file_config_def DefaultConfig_def)
  from demo_node_ips [OF this] show ?thesis by (simp add: node_entries_def)
qed

section \<open>Properties\<close>



text \<open>
  C17. A process that has never led changes no list of the service: as long as no leadership has started
  it has handled no notification, and every list is as it was when the process started.
\<close>

theorem follower_never_writes:
  assumes "outside_ok out S" and "program_reachable fl ovf out flg w p" and "canonical_ids (prog_cfg p)"
    and "None \<notin> set (history (prog_el p))" and "int64_range n"
  shows "prog_handled p = [] \<and> S (world (app_client (prog_app p))) n = S w n"
proof -
  have "leak_inv (prog_el p)" by (rule leak_inv_reachable [OF program_election [OF assms(2)]])
  then have "informers (prog_el p) = []" using assms(4) by (simp add: leak_inv_def)
  then have none: "prog_handled p = []" using handled_needs_informer [OF assms(2)] by blast
  have "by_id S (world (app_client (prog_app p))) = by_id S w"
    by (rule nothing_handled [OF assms(1,2,3) none])
  then show ?thesis using none by_id_decimal [OF assms(5), of S] by metis
qed

theorem follower_never_writes_witness: "world (app_client (prog_app demo_program)) 1 = demo_lists 1"
proof -
  have "None \<notin> set (history (prog_el demo_program))" by (simp add: demo_program_def demo_boot_state)
  from follower_never_writes [OF demo_outside_ok demo_started demo_canonical this, of 1] show ?thesis
    by (simp add: int64_range_def)
qed





text \<open>
  C18. A process that has lost the lease goes on changing lists: in a reachable state in which it neither
  leads nor says it does, an informer it started as the leader reports a deleted node and the address
  of the node is removed.
\<close>

theorem demoted_process_still_writes:
  "\<exists>p p'. demo_run p \<and> \<not> IsLeader (prog_el p) \<and> (\<forall>e. elections (prog_el p) e \<noteq> Leading) \<and>
     program_step (\<lambda>x. x) (\<lambda>_. 0) (out_kube demo_outside) p p' \<and>
     world (app_client (prog_app p)) 1 = Some [''10.0.0.0/8'', ''192.0.2.9/32''] \<and>
     world (app_client (prog_app p')) 1 = Some [''10.0.0.0/8'']"
proof -
  obtain a where a: "demo_notify late_delete = Returns a" and removed: "world (app_client a) 1 = Some [''10.0.0.0/8'']"
    using late_delete_handled by blast
  have "world (app_client (prog_app demo_program)) 1 = Some [''10.0.0.0/8'', ''192.0.2.9/32'']" by code_simp
  then show ?thesis
    using demoted_reachable demoted_state(3,4) removed demoted_handles(1) [OF a]
    by (intro exI [of _ "demo_program\<lparr>prog_el := demoted\<rparr>"]
        exI [of _ "demo_program\<lparr>prog_el := demoted, prog_app := a, prog_handled := [late_delete]\<rparr>"]) simp
qed

end
