(* ===== verification/Spec2Isabelle.thy ===== *)
theory Spec2Isabelle
  imports ErrorClassification Reliability ConcurrentProps ProgramProps
begin

text \<open>
  A model of \<^verbatim>\<open>kube-linode-database-controller\<close>, a Go program that watches the nodes of a Kubernetes
  cluster and keeps the allow lists of managed Linode databases in step with their external addresses.

  \<^bold>\<open>The program.\<close> \<^verbatim>\<open>main\<close> (\<^verbatim>\<open>cmd/nodewatcher/main.go\<close>) loads the configuration, makes a Kubernetes client and a
  Linode client that share one metrics value, fills the cache of allow lists, and runs \<^verbatim>\<open>Start\<close>, which
  takes part in a leader election. A process that becomes the leader starts an informer; its callbacks
  call the node handlers; a handler takes the external addresses of the node and edits the lists of the
  databases configured for the nodepool of the node, through the cache and a retry loop. Lost elections
  are counted by a reliability tracker that spaces the restarts and ends the process when there are too
  many.

  \<^bold>\<open>The theories\<close>, in the order of the code they model:
  \<^item> \<open>Prelude\<close>, \<open>GoLib\<close>: lemmas on folds and loops that keep the last error, congruence rules, and what the
    code uses of Go's library (\<^verbatim>\<open>strings\<close>, \<^verbatim>\<open>strconv\<close>, \<^verbatim>\<open>fmt.Sscanf\<close>, \<^verbatim>\<open>float64\<close> as reals with a rounding).
  \<^item> \<open>Config\<close>: \<^verbatim>\<open>pkg/config/config.go\<close> (\<open>DefaultConfig\<close>, \<open>LoadFromFile\<close>, \<open>LoadFromEnv\<close>, \<open>Load\<close>, \<open>Validate\<close>).
  \<^item> \<open>Retry\<close>: \<^verbatim>\<open>pkg/utils/retry.go\<close>; the locales \<open>retryable\<close> and \<open>retryable_transient\<close> state what a caller has to
    know of the function it retries.
  \<^item> \<open>Reliability\<close>: \<^verbatim>\<open>pkg/kubernetes/reliability.go\<close>, the failure window, the breaker and the backoff.
  \<^item> \<open>Regex\<close>, \<open>ErrorClassification\<close>: \<^verbatim>\<open>pkg/kubernetes/error_classification.go\<close> over a matcher of its patterns.
  \<^item> \<open>Metrics\<close>: \<^verbatim>\<open>pkg/metrics/metrics.go\<close> as a log of calls on the Prometheus vectors.
  \<^item> \<open>LinodeClient\<close>: \<^verbatim>\<open>pkg/linode/client.go\<close>, the cache, the adapter, one update and \<^verbatim>\<open>UpdateAllowList\<close>;
    \<open>AllowListSpec\<close>, \<open>AllowListUpdate\<close> its contract over sets of entries and the proof that it is kept
    (interpretations \<open>upd\<close>, \<open>upd_live\<close>, \<open>quiet_retry\<close>); \<open>AllowListProps\<close> its properties; \<open>LinodeService\<close> the
    client that \<^verbatim>\<open>NewClient\<close> makes over the numeric databases of the service.
  \<^item> \<open>ConcurrentUpdates\<close>, \<open>ConcurrentProps\<close>: the same update split at every access to shared state, and
    schedules of several updates (locale \<open>turns\<close>, interpretation \<open>updates\<close>).
  \<^item> \<open>KubeClient\<close>: \<^verbatim>\<open>pkg/kubernetes/client.go\<close>, the part about nodes (labels, addresses, lists, events, the
    consistency checks, the callbacks of the informer); \<open>NodeTracking\<close> its properties (locale
    \<open>node_handlers\<close>, interpretation \<open>ledger\<close>).
  \<^item> \<open>NodeWatcher\<close>: the handler of node events, the node-count goroutines and \<^verbatim>\<open>initLogger\<close> of
    \<^verbatim>\<open>cmd/nodewatcher/main.go\<close>; \<open>NodeMirror\<close>, \<open>NodeMirrorProps\<close> the refinement of the handlers by set
    operations (interpretation \<open>mirror\<close>) and what streams of notifications make of the lists;
    \<open>EntrySafety\<close> what no failure can break (interpretation \<open>keep\<close>).
  \<^item> \<open>LeaderElection\<close>: \<^verbatim>\<open>pkg/kubernetes/client.go\<close>, the part that elects (\<open>NewClient\<close>, \<open>Start\<close>, the callbacks, the stop
    channel, the life of \<^verbatim>\<open>watchNodes\<close>) as a step relation; \<open>ElectionProps\<close> its invariants.
  \<^item> \<open>Program\<close>, \<open>ProgramProps\<close>: \<^verbatim>\<open>main\<close> up to \<^verbatim>\<open>Start\<close>, and the runs in which election and handlers meet.

  \<^bold>\<open>How the code is rendered.\<close> A struct is a record with the fields that influence behaviour, an error is
  its text, \<open>Inl\<close>/\<open>Some\<close> where a function returns one; a call that touches the outside threads a world
  \<open>'w\<close>. What is not in the repository is a parameter: the Linode service (\<open>mysql_service\<close>, or the interface
  \<^verbatim>\<open>LinodeAPI\<close> in \<open>linode_env\<close>), the limiter, clock, context, timers and random numbers (\<open>retry_env\<close>), the
  Kubernetes API (\<open>kube_env\<close>), \<^verbatim>\<open>yaml\<close> and the system (\<open>os_env\<close>), zap's \<^verbatim>\<open>Build\<close>. What the properties rely on
  there are named hypotheses: \<open>api_laws\<close> (reads return what is stored; a failed write may have been applied or
  not), \<open>atomic_failures\<close>, \<open>transient\<close> (fewer failures than attempts), \<open>service_laws\<close>, \<open>runtime_frame\<close>,
  \<open>kube_quiet\<close>, \<open>kube_frame\<close>, \<open>api_lists\<close>, \<open>float64_rounding\<close>; each is met by a concrete world in a witness. Maps
  that Go ranges over are visited in any order (\<open>range_order\<close>).

  \<^bold>\<open>What the properties show.\<close> Of an update: its contract under any failures, its effect, that it outlasts
  transient failures, that it does not write when there is nothing to do, and that it does not depend on
  map order; run alone the fine-grained steps are the update; updates of different databases do not
  interfere under any schedule, those of one database do. Of the handlers: a stream of notifications
  leaves in every list what was there and the addresses of the stored nodes, when failures are few; under
  any failures an entry that is no address of a notified node stays as it was. Of the election: one
  election at a time, never stuck, exit exactly on ten failures in five minutes, counters, backoff bounds.
  Of the program: that its lists mirror the nodes in every reachable state (callbacks not overlapping, few
  failures), when \<^verbatim>\<open>main\<close> reaches \<^verbatim>\<open>Start\<close>, that a process that never led writes nothing, and that one that
  has lost the lease still does. Of the rest: validation, precedence of configuration, the classifier,
  the retry loop, the metrics.

  \<^bold>\<open>Bounds and fuel.\<close> No definition is bounded by fuel: the retry loop ends by the measure \<^verbatim>\<open>MaxAttempts\<close> minus
  attempt, an update by \<open>turns_left\<close> (at most twelve turns for each attempt and four more, theorem
  \<open>updates_wait_free\<close>). Endless loops (the monitor of \<^verbatim>\<open>Start\<close>, the ticker) are steps of a relation or
  rounds of a function; durations are nanoseconds in \<open>int\<close>, with the conversion from \<^verbatim>\<open>float64\<close> to 64 bits
  written out where it can overflow.

  \<^bold>\<open>Assumptions of the step relations.\<close> A piece of code that does not block and runs under one lock, or on
  one goroutine's own data, is one step; client-go calls the callbacks of the election as it documents
  (the order in \<open>elector_step\<close>). In \<open>Program\<close> one callback of an informer is one step, so its runs are those
  in which callbacks of different informers do not overlap; what overlapping updates can do is in
  \<open>ConcurrentProps\<close>. Nothing in the program calls \<^verbatim>\<open>Stop\<close>; a metrics server that fails ends the process at
  any moment, so it adds no reachable state.

  \<^bold>\<open>Not modelled.\<close> Logging (but for \<^verbatim>\<open>logger.Fatal\<close>); \<^verbatim>\<open>StartMetricsServer\<close> and \<^verbatim>\<open>Handler\<close>, which hand the
  registry to promhttp; the bodies of client-go, linodego, oauth2, the rate limiter, Prometheus and
  yaml; the list options and the resync period of the informer; histogram buckets and help texts.
\<close>

end
